theory Spec2Isabelle
  imports Complex_Main
begin

section \<open>Data model (types.ts, constants.ts)\<close>

text \<open>
  JavaScript numbers are modelled as reals: rounding, infinities and NaN of IEEE doubles
  (and of the Float32Array cells) are outside this part of the model. The rounding of the
  movement step is modelled separately, in the section on double arithmetic below.
  Readings of \<open>Date.now()\<close> are integers (milliseconds). A \<open>Point\<close> is the object \<open>{x, y}\<close>; its fields are called
  \<open>px\<close> and \<open>py\<close> here.
\<close>

record Point =
  px :: real
  py :: real

datatype AgentState = WALKING | BROWSING | EXITING

datatype Gender = MALE | FEMALE

text \<open>
  Of a \<open>StoreConfig\<close> the engine reads only \<open>width\<close> and \<open>height\<close>; the racks, islands,
  entrance and hotspots are drawn by the presentation layer and are left out.
\<close>

record StoreConfig =
  store_id :: string
  name :: string
  width :: real
  height :: real

text \<open>
  \<open>PlanData\<close>: \<open>position\<close> and \<open>orientation\<close> are the two-element vectors of the wire
  format, read by the code at the indices 0 and 1; the model takes them as pairs.
\<close>

record PlanData =
  age :: string
  bbox :: "real list"
  gender :: string
  track_id :: string
  orientation :: "real \<times> real"
  position :: "real \<times> real"

record WebSocketResponse =
  area :: string
  entry_number :: real
  short_dwell_number :: real
  video_image :: "(string \<times> string) list list"
  plan_data :: "PlanData list"

text \<open>
  The wrapper object of a parsed message. A field that is absent (or, for \<open>data\<close>, falsy)
  is \<open>None\<close>.
\<close>

record WebSocketMessage =
  type' :: "string option"
  deviceId :: "string option"
  data :: "WebSocketResponse option"

record Customer =
  id' :: string
  pos :: Point
  target :: Point
  targetId :: string
  state :: AgentState
  angle :: real
  speed :: real
  browsingTimer :: real
  dwellStartTime :: real
  totalStartTime :: real
  hasCountedForZone :: bool
  path :: "Point list"
  color :: string
  gender :: Gender
  age :: "string option"

record DailyStats =
  totalCustomers :: real
  quickExits :: real
  femaleCount :: nat
  maleCount :: nat
  totalDwellTimeMs :: int
  completedVisits :: nat

text \<open>
  The state of the \<open>App\<close> component that the engine reads and writes: the React state
  cells (\<open>currentStoreIdx\<close>, \<open>customers\<close>, \<open>dailyStats\<close>, \<open>liveImage\<close>, \<open>heatmap\<close>) and the
  refs (\<open>heatmapAccumulatorRef\<close>, \<open>lastTimeRef\<close>, \<open>entryTimesRef\<close>).
\<close>

record AppState =
  currentStoreIdx :: nat
  customers :: "Customer list"
  dailyStats :: DailyStats
  liveImage :: "string option"
  heatmap :: "real list"
  heatmapAccumulator :: "real list"
  lastTime :: real
  entryTimes :: "string \<rightharpoonup> int"

definition GRID_SIZE :: real where
  "GRID_SIZE = 25"

definition STORES :: "StoreConfig list" where
  "STORES =
     [\<lparr>store_id = ''coldroom1'', name = ''Makro St.57 (Bangphil-Coldroom1)'',
        width = 1516, height = 1016\<rparr>,
      \<lparr>store_id = ''coldroom2'', name = ''Makro St.57 (Bangphil-Coldroom2)'',
        width = 1118, height = 690\<rparr>]"

definition store :: "AppState \<Rightarrow> StoreConfig" where
  \<comment> \<open>\<open>const store = STORES[currentStoreIdx]\<close>\<close>
  "store s = STORES ! currentStoreIdx s"

definition COLS :: "StoreConfig \<Rightarrow> int" where
  "COLS st = \<lceil>width st / GRID_SIZE\<rceil>"

definition ROWS :: "StoreConfig \<Rightarrow> int" where
  "ROWS st = \<lceil>height st / GRID_SIZE\<rceil>"

section \<open>Library functions of the host language\<close>

definition lower_char :: "char \<Rightarrow> char" where
  "lower_char c =
     (case map_of (zip ''ABCDEFGHIJKLMNOPQRSTUVWXYZ'' ''abcdefghijklmnopqrstuvwxyz'') c of
        Some l \<Rightarrow> l
      | None \<Rightarrow> c)"

definition toLowerCase :: "string \<Rightarrow> string" where
  \<comment> \<open>\<open>String.prototype.toLowerCase\<close> on ASCII text\<close>
  "toLowerCase str = map lower_char str"

definition atan2 :: "real \<Rightarrow> real \<Rightarrow> real" where
  \<comment> \<open>\<open>Math.atan2(y, x)\<close> on finite arguments; the reals have one zero, so the case
      \<open>Math.atan2(-0, x)\<close> with \<open>x < 0\<close>, which is \<open>-pi\<close>, is not distinguished from \<open>+0\<close>\<close>
  "atan2 b a =
     (if 0 < a then arctan (b / a)
      else if a < 0 \<and> 0 \<le> b then arctan (b / a) + pi
      else if a < 0 then arctan (b / a) - pi
      else if 0 < b then pi / 2
      else if b < 0 then - (pi / 2)
      else 0)"

section \<open>processWebSocketData (App.tsx, lines 115-221)\<close>

definition process_video_image :: "WebSocketResponse \<Rightarrow> string option \<Rightarrow> string option" where
  \<comment> \<open>1. Process Video Image: the first value of the first object, when it is truthy;
      an object is the list of its properties in the order of \<open>Object.values\<close>\<close>
  "process_video_image d live =
     (case video_image d of
        [] \<Rightarrow> live
      | imgObj # _ \<Rightarrow>
          (case imgObj of
             [] \<Rightarrow> live
           | (_, base64) # _ \<Rightarrow>
               if base64 \<noteq> [] then Some (''data:image/jpeg;base64,'' @ base64) else live))"

definition process_statistics :: "WebSocketResponse \<Rightarrow> DailyStats \<Rightarrow> DailyStats" where
  \<comment> \<open>2. Process Statistics: the updater passed to \<open>setDailyStats\<close>\<close>
  "process_statistics d prev =
     (let currentFemales =
            length (filter (\<lambda>p. toLowerCase (PlanData.gender p) = ''female'') (plan_data d));
          currentMales =
            length (filter (\<lambda>p. toLowerCase (PlanData.gender p) = ''male'') (plan_data d))
      in prev\<lparr>totalCustomers :=
                 (if entry_number d > 0 then entry_number d else totalCustomers prev),
               quickExits :=
                 (if short_dwell_number d > 0 then short_dwell_number d else quickExits prev),
               femaleCount := currentFemales,
               maleCount := currentMales\<rparr>)"

definition targetPos :: "PlanData \<Rightarrow> Point" where
  "targetPos p = \<lparr>px = fst (position p), py = snd (position p)\<rparr>"

definition targetAngle :: "PlanData \<Rightarrow> real" where
  "targetAngle p =
     (let angleRad = atan2 (snd (orientation p)) (fst (orientation p))
      in (angleRad * 180) / pi)"

definition update_existing :: "Customer \<Rightarrow> PlanData \<Rightarrow> Customer" where
  \<comment> \<open>the object pushed for an existing customer (lines 166-175)\<close>
  "update_existing existing p =
     existing\<lparr>target := targetPos p,
              angle := targetAngle p,
              age := Some (PlanData.age p),
              state := WALKING\<rparr>"

definition new_customer :: "real \<Rightarrow> PlanData \<Rightarrow> Customer" where
  \<comment> \<open>the object pushed for a new customer (lines 182-198)\<close>
  "new_customer now p =
     (let gender = (if toLowerCase (PlanData.gender p) = ''female'' then FEMALE else MALE);
          color = (if gender = FEMALE then ''#ec4899'' else ''#06b6d4'')
      in \<lparr>id' = track_id p,
          pos = targetPos p,
          target = targetPos p,
          targetId = ''unknown'',
          state = WALKING,
          angle = targetAngle p,
          speed = 0,
          browsingTimer = 0,
          dwellStartTime = now,
          totalStartTime = now,
          hasCountedForZone = False,
          path = [targetPos p],
          color = color,
          gender = gender,
          age = Some (PlanData.age p)\<rparr>)"

text \<open>
  The loop \<open>data.plan_data.forEach\<close> of the \<open>setCustomers\<close> updater. It threads
  \<open>nextCustomers\<close>, \<open>activeIds\<close> and the map behind \<open>entryTimesRef\<close>; \<open>prevCustomers\<close>
  is the list the updater received and is not changed by the loop. \<open>now\<close> is the reading
  of \<open>performance.now()\<close>, \<open>wall\<close> the reading of \<open>Date.now()\<close>; the handler runs
  synchronously and its readings of \<open>Date.now()\<close> are taken as one instant.
\<close>

fun process_plan_data ::
  "Customer list \<Rightarrow> real \<Rightarrow> int \<Rightarrow> PlanData list \<Rightarrow>
     Customer list \<times> string set \<times> (string \<rightharpoonup> int) \<Rightarrow>
     Customer list \<times> string set \<times> (string \<rightharpoonup> int)" where
  "process_plan_data prevCustomers now wall [] acc = acc"
| "process_plan_data prevCustomers now wall (p # ps) (nextCustomers, activeIds, et) =
     (case find (\<lambda>c. id' c = track_id p) prevCustomers of
        Some existing \<Rightarrow>
          process_plan_data prevCustomers now wall ps
            (nextCustomers @ [update_existing existing p], insert (track_id p) activeIds, et)
      | None \<Rightarrow>
          process_plan_data prevCustomers now wall ps
            (nextCustomers @ [new_customer now p], insert (track_id p) activeIds,
             (if et (track_id p) \<noteq> None then et else et(track_id p \<mapsto> wall))))"

text \<open>
  The loop \<open>prevCustomers.forEach\<close> that handles exits. \<open>if (entryTime)\<close> is a truthiness
  test: it fails for a missing entry and for the number 0.
\<close>

fun handle_exits ::
  "string set \<Rightarrow> int \<Rightarrow> Customer list \<Rightarrow> DailyStats \<times> (string \<rightharpoonup> int) \<Rightarrow>
     DailyStats \<times> (string \<rightharpoonup> int)" where
  "handle_exits activeIds wall [] acc = acc"
| "handle_exits activeIds wall (c # cs) (ds, et) =
     (if id' c \<notin> activeIds then
        (case et (id' c) of
           Some entryTime \<Rightarrow>
             if entryTime \<noteq> 0 then
               (let duration = wall - entryTime
                in handle_exits activeIds wall cs
                     (ds\<lparr>totalDwellTimeMs := totalDwellTimeMs ds + duration,
                         completedVisits := completedVisits ds + 1\<rparr>,
                      et(id' c := None)))
             else handle_exits activeIds wall cs (ds, et)
         | None \<Rightarrow> handle_exits activeIds wall cs (ds, et))
      else handle_exits activeIds wall cs (ds, et))"

text \<open>
  One call of \<open>processWebSocketData\<close>: the updaters it queues are applied in the order in
  which they are queued (the statistics updater, the customers updater, then the
  statistics updaters queued by the exit loop).
\<close>

definition processWebSocketData ::
  "real \<Rightarrow> int \<Rightarrow> WebSocketResponse \<Rightarrow> AppState \<Rightarrow> AppState" where
  "processWebSocketData now wall d s =
     (let live = process_video_image d (liveImage s);
          stats = process_statistics d (dailyStats s);
          (nextCustomers, activeIds, et) =
            process_plan_data (customers s) now wall (plan_data d) ([], {}, entryTimes s);
          (stats', et') = handle_exits activeIds wall (customers s) (stats, et)
      in s\<lparr>liveImage := live,
           dailyStats := stats',
           customers := nextCustomers,
           entryTimes := et'\<rparr>)"

section \<open>ws.onmessage (App.tsx, lines 83-94)\<close>

datatype js_error = SyntaxError | TypeError

text \<open>
  What \<open>JSON.parse\<close> returns: \<open>null\<close>, a value with no properties of interest (a number,
  a string, a boolean, an array), or an object read as the wrapper.
\<close>

datatype json = JNull | JOther | JObject WebSocketMessage

definition onmessage_try ::
  "real \<Rightarrow> int \<Rightarrow> js_error + json \<Rightarrow> AppState \<Rightarrow> js_error + AppState" where
  \<comment> \<open>the body of the \<open>try\<close> block; \<open>Inl\<close> is a thrown exception\<close>
  "onmessage_try now wall parsed s =
     (case parsed of
        Inl e \<Rightarrow> Inl e
      | Inr JNull \<Rightarrow> Inl TypeError
      | Inr JOther \<Rightarrow> Inr s
      | Inr (JObject message) \<Rightarrow>
          if type' message = Some ''device_data'' then
            (case data message of
               Some d \<Rightarrow> Inr (processWebSocketData now wall d s)
             | None \<Rightarrow> Inr s)
          else Inr s)"

definition onmessage :: "real \<Rightarrow> int \<Rightarrow> js_error + json \<Rightarrow> AppState \<Rightarrow> AppState" where
  \<comment> \<open>\<open>try { ... } catch (e) { console.error(...) }\<close>: the exception is logged and dropped\<close>
  "onmessage now wall parsed s =
     (case onmessage_try now wall parsed s of
        Inl e \<Rightarrow> s
      | Inr s' \<Rightarrow> s')"

section \<open>updateSimulation (App.tsx, lines 223-272)\<close>

text \<open>
  The body of \<open>prev.map(c => ...)\<close> for one customer. It returns the new customer and
  the accumulator array after the write into the customer's cell.
\<close>

definition simulate_customer ::
  "real \<Rightarrow> StoreConfig \<Rightarrow> Customer \<Rightarrow> real list \<Rightarrow> Customer \<times> real list" where
  "simulate_customer dt st c acc =
     (let lerpFactor = 0.15;
          dx = px (target c) - px (pos c);
          dy = py (target c) - py (pos c);
          (pos1, path1) =
            (if \<bar>dx\<bar> > 0.5 \<or> \<bar>dy\<bar> > 0.5 then
               (let p = \<lparr>px = px (pos c) + dx * lerpFactor,
                         py = py (pos c) + dy * lerpFactor\<rparr>
                in (p,
                    if path c = [] \<or>
                       sqrt ((px p - px (last (path c)))\<^sup>2 + (py p - py (last (path c)))\<^sup>2) > 30
                    then drop (length (path c) - 15) (path c) @ [p]
                    else path c))
             else (pos c, path c));
          gridX = \<lfloor>px pos1 / GRID_SIZE\<rfloor>;
          gridY = \<lfloor>py pos1 / GRID_SIZE\<rfloor>;
          COLS_INT = \<lceil>width st / GRID_SIZE\<rceil>;
          ROWS_INT = \<lceil>height st / GRID_SIZE\<rceil>;
          acc1 =
            (if gridX \<ge> 0 \<and> gridX < COLS_INT \<and> gridY \<ge> 0 \<and> gridY < ROWS_INT then
               (let idx = nat (gridY * COLS_INT + gridX)
                in if idx < length acc then acc[idx := acc ! idx + 0.02 * dt] else acc)
             else acc)
      in (c\<lparr>pos := pos1, path := path1\<rparr>, acc1))"

fun simulate_customers ::
  "real \<Rightarrow> StoreConfig \<Rightarrow> Customer list \<Rightarrow> real list \<Rightarrow> Customer list \<times> real list" where
  "simulate_customers dt st [] acc = ([], acc)"
| "simulate_customers dt st (c # cs) acc =
     (let (c1, acc1) = simulate_customer dt st c acc;
          (cs1, acc2) = simulate_customers dt st cs acc1
      in (c1 # cs1, acc2))"

text \<open>
  One call of \<open>updateSimulation\<close>. \<open>time\<close> is the time stamp that
  \<open>requestAnimationFrame\<close> passes. The updater given to \<open>setCustomers\<close>, which also writes
  the accumulator, runs when the queued update is processed, after the callback has taken
  the snapshot it publishes: the published \<open>heatmap\<close> is the accumulator before this tick's
  increments.
\<close>

definition updateSimulation :: "real \<Rightarrow> AppState \<Rightarrow> AppState" where
  "updateSimulation time s =
     (let dt = (time - lastTime s) / 16.67;
          (cs, acc) = simulate_customers dt (store s) (customers s) (heatmapAccumulator s)
      in s\<lparr>lastTime := time,
           customers := cs,
           heatmapAccumulator := acc,
           heatmap := (if \<lfloor>time\<rfloor> mod 60 = 0 then heatmapAccumulator s else heatmap s)\<rparr>)"

section \<open>The movement step in double arithmetic (App.tsx, lines 234-243)\<close>

text \<open>
  The position update of the loop body once more, in the arithmetic the program runs on:
  a JavaScript number is an IEEE 754 binary64 value, and a subtraction, multiplication or
  addition returns its exact result rounded to the nearest such value, ties to even.
  \<open>expo\<close> is the binary exponent of a number (not below the exponent of the subnormal
  numbers), \<open>ulp\<close> the spacing of the doubles around it, \<open>rne\<close> rounds to the nearest integer,
  ties to even, and \<open>round_nearest\<close> is the rounding of a real to a double. Its exponent is
  not bounded above; \<open>finite_double\<close> says that a rounded result did not overflow to
  \<open>Infinity\<close>.
\<close>

definition expo :: "real \<Rightarrow> int" where
  "expo x = max \<lfloor>log 2 \<bar>x\<bar>\<rfloor> (- 1022)"

definition ulp :: "real \<Rightarrow> real" where
  "ulp x = 2 powi (expo x - 52)"

definition rne :: "real \<Rightarrow> int" where
  "rne z =
     (let f = \<lfloor>z\<rfloor>; r = z - of_int f
      in if r < 1 / 2 then f
         else if 1 / 2 < r then f + 1
         else if even f then f else f + 1)"

definition round_nearest :: "real \<Rightarrow> real" where
  "round_nearest x = (if x = 0 then 0 else ulp x * of_int (rne (x / ulp x)))"

definition finite_double :: "real \<Rightarrow> bool" where
  "finite_double r = (\<bar>r\<bar> < 2 ^ 1024)"

text \<open>The constant \<open>lerpFactor = 0.15\<close> as the program holds it: the double nearest to 0.15.\<close>

definition lerpFactor_double :: real where
  "lerpFactor_double = round_nearest 0.15"

text \<open>
  \<open>step_double p t\<close> is the new \<open>pos\<close> of an entity with \<open>pos = p\<close> and \<open>target = t\<close>. It is
  \<open>None\<close> when a result overflows: the program then goes on with \<open>Infinity\<close> or \<open>NaN\<close>,
  which the model does not follow. \<open>steps_double n\<close> is \<open>n\<close> ticks in a row.
\<close>

definition step_double :: "Point \<Rightarrow> Point \<Rightarrow> Point option" where
  "step_double p t =
     (let dx = round_nearest (px t - px p);
          dy = round_nearest (py t - py p)
      in if \<not> (finite_double dx \<and> finite_double dy) then None
         else if \<bar>dx\<bar> > 0.5 \<or> \<bar>dy\<bar> > 0.5 then
           (let mx = round_nearest (dx * lerpFactor_double);
                my = round_nearest (dy * lerpFactor_double);
                x1 = round_nearest (px p + mx);
                y1 = round_nearest (py p + my)
            in if finite_double mx \<and> finite_double my \<and> finite_double x1 \<and> finite_double y1
               then Some \<lparr>px = x1, py = y1\<rparr>
               else None)
         else Some p)"

fun steps_double :: "nat \<Rightarrow> Point \<Rightarrow> Point \<Rightarrow> Point option" where
  "steps_double 0 p t = Some p"
| "steps_double (Suc n) p t =
     (case step_double p t of
        None \<Rightarrow> None
      | Some p1 \<Rightarrow> steps_double n p1 t)"

section \<open>Store change (App.tsx, lines 62-68 and 297-299)\<close>

definition store_change_effect :: "AppState \<Rightarrow> AppState" where
  \<comment> \<open>the effect "Reset heatmaps on store change"\<close>
  "store_change_effect s =
     (let newSize = nat (\<lceil>width (store s) / GRID_SIZE\<rceil> * \<lceil>height (store s) / GRID_SIZE\<rceil>)
      in s\<lparr>heatmapAccumulator := replicate newSize 0,
           heatmap := replicate newSize 0,
           customers := []\<rparr>)"

definition setCurrentStoreIdx :: "nat \<Rightarrow> AppState \<Rightarrow> AppState option" where
  \<comment> \<open>the selector offers the indices of \<open>STORES\<close>; the effect runs when the index changes\<close>
  "setCurrentStoreIdx idx s =
     (if idx < length STORES then
        Some (if idx = currentStoreIdx s then s
              else store_change_effect (s\<lparr>currentStoreIdx := idx\<rparr>))
      else None)"

definition initial_state :: "real \<Rightarrow> AppState" where
  \<comment> \<open>the component after mounting; \<open>t0\<close> is the first reading of \<open>performance.now()\<close>\<close>
  "initial_state t0 =
     \<lparr>currentStoreIdx = 0,
      customers = [],
      dailyStats = \<lparr>totalCustomers = 0, quickExits = 0, femaleCount = 0, maleCount = 0,
                    totalDwellTimeMs = 0, completedVisits = 0\<rparr>,
      liveImage = None,
      heatmap = replicate (nat (COLS (STORES ! 0) * ROWS (STORES ! 0))) 0,
      heatmapAccumulator = replicate (nat (COLS (STORES ! 0) * ROWS (STORES ! 0))) 0,
      lastTime = t0,
      entryTimes = Map.empty\<rparr>"

text \<open>The events the engine reacts to, and a run of the engine over a list of them.\<close>

datatype event =
    Message real int "js_error + json"
  | Tick real
  | SelectStore nat

fun step :: "event \<Rightarrow> AppState \<Rightarrow> AppState option" where
  "step (Message now wall parsed) s = Some (onmessage now wall parsed s)"
| "step (Tick time) s = Some (updateSimulation time s)"
| "step (SelectStore idx) s = setCurrentStoreIdx idx s"

fun run :: "event list \<Rightarrow> AppState \<Rightarrow> AppState option" where
  "run [] s = Some s"
| "run (e # es) s = (case step e s of None \<Rightarrow> None | Some s1 \<Rightarrow> run es s1)"

text \<open>
  The messages the handler drops: an unparsable payload, a parsed value that is not a
  wrapper object, and a wrapper whose type is not \<open>device_data\<close> or that has no data.
\<close>

fun malformed :: "js_error + json \<Rightarrow> bool" where
  "malformed (Inl e) = True"
| "malformed (Inr JNull) = True"
| "malformed (Inr JOther) = True"
| "malformed (Inr (JObject message)) =
     (type' message \<noteq> Some ''device_data'' \<or> data message = None)"

section \<open>Example inputs\<close>

definition person :: "string \<Rightarrow> string \<Rightarrow> real \<Rightarrow> real \<Rightarrow> PlanData" where
  "person tid g a b =
     \<lparr>PlanData.age = ''30'', bbox = [], PlanData.gender = g, track_id = tid,
      orientation = (1, 0), position = (a, b)\<rparr>"

definition snapshot :: "real \<Rightarrow> real \<Rightarrow> PlanData list \<Rightarrow> WebSocketResponse" where
  "snapshot entries exits people =
     \<lparr>area = ''coldroom'', entry_number = entries, short_dwell_number = exits,
      video_image = [], plan_data = people\<rparr>"

definition device_data :: "WebSocketResponse \<Rightarrow> js_error + json" where
  "device_data d =
     Inr (JObject \<lparr>type' = Some ''device_data'', deviceId = Some ''cam1'', data = Some d\<rparr>)"

section \<open>Derived notions used by the statements\<close>

text \<open>
  The definitions below name parts of the functions above (each is tied to the code by a
  lemma of the next sections) and the notions the statements speak about.
\<close>

definition customer_of :: "Customer list \<Rightarrow> real \<Rightarrow> PlanData \<Rightarrow> Customer" where
  \<comment> \<open>the entity pushed for one record of the people list\<close>
  "customer_of prevCustomers now p =
     (case find (\<lambda>c. id' c = track_id p) prevCustomers of
        Some existing \<Rightarrow> update_existing existing p
      | None \<Rightarrow> new_customer now p)"

text \<open>The constant \<open>lerpFactor\<close> of the loop body.\<close>

definition lerpFactor :: real where
  "lerpFactor = 0.15"

text \<open>The test "distance is significant" of the loop body.\<close>

definition moving :: "Customer \<Rightarrow> bool" where
  "moving c = (\<bar>px (target c) - px (pos c)\<bar> > 0.5 \<or> \<bar>py (target c) - py (pos c)\<bar> > 0.5)"

text \<open>
  The customer that the body of \<open>prev.map\<close> returns: the movement and the trail, without
  the write to the heatmap.
\<close>

definition advance :: "Customer \<Rightarrow> Customer" where
  "advance c =
     (if moving c then
        (let p = \<lparr>px = px (pos c) + (px (target c) - px (pos c)) * lerpFactor,
                  py = py (pos c) + (py (target c) - py (pos c)) * lerpFactor\<rparr>
         in c\<lparr>pos := p,
              path := (if path c = [] \<or>
                          sqrt ((px p - px (last (path c)))\<^sup>2 + (py p - py (last (path c)))\<^sup>2) > 30
                       then drop (length (path c) - 15) (path c) @ [p]
                       else path c)\<rparr>)
      else c)"

text \<open>The cell index the loop body computes for a position, when it is within bounds.\<close>

definition cell_of :: "StoreConfig \<Rightarrow> Point \<Rightarrow> nat option" where
  "cell_of st p =
     (let gridX = \<lfloor>px p / GRID_SIZE\<rfloor>;
          gridY = \<lfloor>py p / GRID_SIZE\<rfloor>
      in if gridX \<ge> 0 \<and> gridX < COLS st \<and> gridY \<ge> 0 \<and> gridY < ROWS st
         then Some (nat (gridY * COLS st + gridX)) else None)"

text \<open>The Euclidean distance of two points.\<close>

definition distance :: "Point \<Rightarrow> Point \<Rightarrow> real" where
  "distance a b = sqrt ((px a - px b)\<^sup>2 + (py a - py b)\<^sup>2)"

text \<open>
  For the step in double arithmetic: the new coordinate of one axis, the test of the loop
  body on the computed displacements, and the points whose coordinates are doubles of
  magnitude at most \<open>2 ^ 49\<close>.
\<close>

definition axis_step :: "real \<Rightarrow> real \<Rightarrow> real" where
  "axis_step p t = round_nearest (p + round_nearest (round_nearest (t - p) * lerpFactor_double))"

definition moving_double :: "Point \<Rightarrow> Point \<Rightarrow> bool" where
  "moving_double p t =
     (\<bar>round_nearest (px t - px p)\<bar> > 0.5 \<or> \<bar>round_nearest (py t - py p)\<bar> > 0.5)"

definition in_range :: "Point \<Rightarrow> bool" where
  "in_range p =
     (round_nearest (px p) = px p \<and> round_nearest (py p) = py p \<and>
      \<bar>px p\<bar> \<le> 2 ^ 49 \<and> \<bar>py p\<bar> \<le> 2 ^ 49)"


text \<open>
  Retirements: \<open>truthy\<close> is the test \<open>if (entryTime)\<close>; \<open>exits\<close> are the ids that the exit
  loop retires; \<open>dwell\<close> is the duration it adds for an id; \<open>other_exits\<close> lists the ids
  other than \<open>k\<close> that a merge retires.
\<close>

definition truthy :: "int option \<Rightarrow> bool" where
  "truthy v = (case v of Some t \<Rightarrow> t \<noteq> 0 | None \<Rightarrow> False)"

definition dwell :: "int \<Rightarrow> (string \<rightharpoonup> int) \<Rightarrow> string \<Rightarrow> int" where
  "dwell wall et i = (case et i of Some t \<Rightarrow> wall - t | None \<Rightarrow> 0)"

definition exits :: "string set \<Rightarrow> (string \<rightharpoonup> int) \<Rightarrow> Customer list \<Rightarrow> string set" where
  "exits A et cs = {i \<in> id' ` set cs. i \<notin> A \<and> truthy (et i)}"

definition other_exits :: "AppState \<Rightarrow> WebSocketResponse \<Rightarrow> string \<Rightarrow> string list" where
  "other_exits s d k =
     remdups (filter (\<lambda>i. i \<noteq> k \<and> i \<notin> track_id ` set (plan_data d) \<and> truthy (entryTimes s i))
       (map id' (customers s)))"

text \<open>Example states, each reached from the initial state by the messages shown.\<close>

definition resting_state :: AppState where
  "resting_state =
     processWebSocketData 0 1000 (snapshot 1 0 [person ''a'' ''Female'' 10 10]) (initial_state 0)"


definition visit_state :: AppState where
  "visit_state =
     processWebSocketData 32 3000 (snapshot 1 0 [person ''a'' ''male'' 30 10])
       (processWebSocketData 16 2000 (snapshot 1 0 [person ''a'' ''male'' 20 10])
         (processWebSocketData 0 1000 (snapshot 1 0 [person ''a'' ''male'' 10 10])
           (initial_state 0)))"

definition switched_state :: AppState where
  "switched_state =
     processWebSocketData 64 5000 (snapshot 1 0 [person ''a'' ''male'' 10 10])
       (store_change_effect (visit_state\<lparr>currentStoreIdx := 1\<rparr>))"

section \<open>The merge: what processWebSocketData computes\<close>

lemma process_plan_data_next:
  "fst (process_plan_data prev now wall ps (nxt, act, et)) = nxt @ map (customer_of prev now) ps"
  by (induction ps arbitrary: nxt act et) (auto simp: customer_of_def split: option.splits)

lemma process_plan_data_active:
  "fst (snd (process_plan_data prev now wall ps (nxt, act, et))) = act \<union> track_id ` set ps"
  by (induction ps arbitrary: nxt act et) (auto split: option.splits)

lemma process_plan_data_entry:
  "snd (snd (process_plan_data prev now wall ps (nxt, act, et))) k =
     (if et k = None \<and> k \<in> track_id ` set ps \<and> find (\<lambda>c. id' c = k) prev = None
      then Some wall else et k)"
  by (induction ps arbitrary: nxt act et) (auto split: option.splits)

lemma id_customer_of: "id' (customer_of prev now p) = track_id p"
  by (auto simp: customer_of_def update_existing_def new_customer_def Let_def find_Some_iff
      split: option.splits)

lemma customers_processWebSocketData:
  "customers (processWebSocketData now wall d s) =
     map (customer_of (customers s) now) (plan_data d)"
  using process_plan_data_next [of "customers s" now wall "plan_data d" "[]" "{}" "entryTimes s"]
  by (simp add: processWebSocketData_def Let_def case_prod_beta)

lemma handle_exits_frame:
  "totalCustomers (fst (handle_exits A wall cs (ds, et))) = totalCustomers ds \<and>
   quickExits (fst (handle_exits A wall cs (ds, et))) = quickExits ds \<and>
   femaleCount (fst (handle_exits A wall cs (ds, et))) = femaleCount ds \<and>
   maleCount (fst (handle_exits A wall cs (ds, et))) = maleCount ds"
  by (induction cs arbitrary: ds et) (auto split: option.splits)

lemma dailyStats_processWebSocketData:
  "dailyStats (processWebSocketData now wall d s) =
     fst (handle_exits (track_id ` set (plan_data d)) wall (customers s)
       (process_statistics d (dailyStats s),
        snd (snd (process_plan_data (customers s) now wall (plan_data d)
          ([], {}, entryTimes s)))))"
  using process_plan_data_active [of "customers s" now wall "plan_data d" "[]" "{}" "entryTimes s"]
  by (simp add: processWebSocketData_def Let_def case_prod_beta)

lemma entryTimes_processWebSocketData:
  "entryTimes (processWebSocketData now wall d s) =
     snd (handle_exits (track_id ` set (plan_data d)) wall (customers s)
       (process_statistics d (dailyStats s),
        snd (snd (process_plan_data (customers s) now wall (plan_data d)
          ([], {}, entryTimes s)))))"
  using process_plan_data_active [of "customers s" now wall "plan_data d" "[]" "{}" "entryTimes s"]
  by (simp add: processWebSocketData_def Let_def case_prod_beta)

lemma frame_processWebSocketData:
  "heatmap (processWebSocketData now wall d s) = heatmap s \<and>
   heatmapAccumulator (processWebSocketData now wall d s) = heatmapAccumulator s \<and>
   lastTime (processWebSocketData now wall d s) = lastTime s \<and>
   currentStoreIdx (processWebSocketData now wall d s) = currentStoreIdx s"
  by (simp add: processWebSocketData_def Let_def case_prod_beta)

lemma process_statistics_frame:
  "totalDwellTimeMs (process_statistics d ds) = totalDwellTimeMs ds \<and>
   completedVisits (process_statistics d ds) = completedVisits ds"
  by (simp add: process_statistics_def Let_def)

lemma handle_exits_entry_active:
  "k \<in> A \<Longrightarrow> snd (handle_exits A wall cs (ds, et)) k = et k"
  by (induction cs arbitrary: ds et) (auto split: option.splits)

lemma entryTimes_merge_present:
  "k \<in> track_id ` set (plan_data d) \<Longrightarrow>
     entryTimes (processWebSocketData now wall d s) k =
       (if entryTimes s k = None \<and> find (\<lambda>c. id' c = k) (customers s) = None
        then Some wall else entryTimes s k)"
  by (simp add: entryTimes_processWebSocketData handle_exits_entry_active process_plan_data_entry)

lemma onmessage_device_data:
  "onmessage now wall (device_data d) s = processWebSocketData now wall d s"
  by (simp add: onmessage_def onmessage_try_def device_data_def)

lemma heatmapAccumulator_onmessage:
  "heatmapAccumulator (onmessage now wall parsed s) = heatmapAccumulator s"
  by (auto simp: onmessage_def onmessage_try_def frame_processWebSocketData
      split: sum.splits json.splits option.splits)

lemma store_change_effect_sel:
  "customers (store_change_effect s) = []"
  "entryTimes (store_change_effect s) = entryTimes s"
  "dailyStats (store_change_effect s) = dailyStats s"
  "currentStoreIdx (store_change_effect s) = currentStoreIdx s"
  "lastTime (store_change_effect s) = lastTime s"
  by (simp_all add: store_change_effect_def Let_def)

lemma grid_sizes:
  "COLS (STORES ! 0) = 61" "ROWS (STORES ! 0) = 41"
  "COLS (STORES ! Suc 0) = 45" "ROWS (STORES ! Suc 0) = 28"
  "length STORES = 2"
  by (simp_all add: COLS_def ROWS_def STORES_def GRID_SIZE_def)

section \<open>The exit loop\<close>

lemma finite_exits: "finite (exits A et cs)"
  by (simp add: exits_def)

lemma exits_Nil: "exits A et [] = {}"
  by (simp add: exits_def)

lemma exits_Cons_stay:
  "id' c \<in> A \<or> \<not> truthy (et (id' c)) \<Longrightarrow> exits A et (c # cs) = exits A et cs"
  by (auto simp: exits_def)

lemma handle_exits_result:
  "handle_exits A wall cs (ds, et) =
     (ds\<lparr>totalDwellTimeMs := totalDwellTimeMs ds + (\<Sum>i \<in> exits A et cs. dwell wall et i),
         completedVisits := completedVisits ds + card (exits A et cs)\<rparr>,
      (\<lambda>i. if i \<in> exits A et cs then None else et i))"
proof (induction cs arbitrary: ds et)
  case Nil
  show ?case by (simp add: exits_Nil)
next
  case (Cons c cs)
  show ?case
  proof (cases "id' c \<notin> A \<and> truthy (et (id' c))")
    case False
    then have stay: "exits A et (c # cs) = exits A et cs"
      by (intro exits_Cons_stay) blast
    from False have "handle_exits A wall (c # cs) (ds, et) = handle_exits A wall cs (ds, et)"
      by (auto simp: truthy_def split: option.splits)
    then show ?thesis
      by (simp only: Cons.IH stay)
  next
    case True
    then obtain t where t: "et (id' c) = Some t" "t \<noteq> 0"
      by (auto simp: truthy_def split: option.splits)
    let ?et = "et(id' c := None)"
    let ?ds = "ds\<lparr>totalDwellTimeMs := totalDwellTimeMs ds + (wall - t),
                   completedVisits := completedVisits ds + 1\<rparr>"
    have l: "exits A et (c # cs) = insert (id' c) (exits A ?et cs)"
      "id' c \<notin> exits A ?et cs"
      "\<forall>i \<in> exits A ?et cs. dwell wall ?et i = dwell wall et i"
      using True by (auto simp: exits_def truthy_def dwell_def)
    have step: "handle_exits A wall (c # cs) (ds, et) = handle_exits A wall cs (?ds, ?et)"
      using True t by (simp add: Let_def)
    have sum: "(\<Sum>i \<in> exits A et (c # cs). dwell wall et i) =
        (wall - t) + (\<Sum>i \<in> exits A ?et cs. dwell wall ?et i)"
    proof -
      have "(\<Sum>i \<in> exits A et (c # cs). dwell wall et i) =
          dwell wall et (id' c) + (\<Sum>i \<in> exits A ?et cs. dwell wall et i)"
        unfolding l(1) using l(2) by (simp add: finite_exits)
      moreover have "(\<Sum>i \<in> exits A ?et cs. dwell wall et i) =
          (\<Sum>i \<in> exits A ?et cs. dwell wall ?et i)"
        using l(3) by (intro sum.cong) simp_all
      ultimately show ?thesis by (simp add: dwell_def t)
    qed
    have card: "card (exits A et (c # cs)) = 1 + card (exits A ?et cs)"
      unfolding l(1) using l(2) by (simp add: finite_exits)
    have map: "(\<lambda>i. if i \<in> exits A et (c # cs) then None else et i) =
        (\<lambda>i. if i \<in> exits A ?et cs then None else ?et i)"
      unfolding l(1) by auto
    show ?thesis
      unfolding step Cons.IH sum card map by simp
  qed
qed

lemma exits_entry_cong:
  assumes "\<forall>i. i \<notin> A \<longrightarrow> et1 i = et i"
  shows "exits A et1 cs = exits A et cs"
  using assms by (auto simp: exits_def)

lemma sum_exits_entry_cong:
  assumes "\<forall>i. i \<notin> A \<longrightarrow> et1 i = et i"
  shows "(\<Sum>i \<in> exits A et1 cs. dwell wall et1 i) = (\<Sum>i \<in> exits A et cs. dwell wall et i)"
proof -
  have "\<forall>i \<in> exits A et cs. dwell wall et1 i = dwell wall et i"
    using assms by (auto simp: exits_def dwell_def)
  then show ?thesis
    unfolding exits_entry_cong [OF assms] by (intro sum.cong) simp_all
qed

lemma other_exits_set:
  "set (other_exits s d k) =
     exits (track_id ` set (plan_data d)) (entryTimes s) (customers s) - {k}"
  by (auto simp: other_exits_def exits_def)

lemma distinct_other_exits: "distinct (other_exits s d k)"
  by (simp add: other_exits_def)

lemma completedVisits_merge_no_exit:
  "set (map id' (customers s)) \<subseteq> track_id ` set (plan_data d) \<Longrightarrow>
     completedVisits (dailyStats (processWebSocketData now wall d s)) =
       completedVisits (dailyStats s) \<and>
     totalDwellTimeMs (dailyStats (processWebSocketData now wall d s)) =
       totalDwellTimeMs (dailyStats s)"
proof -
  assume a: "set (map id' (customers s)) \<subseteq> track_id ` set (plan_data d)"
  have "exits (track_id ` set (plan_data d)) et (customers s) = {}" for et
    using a by (auto simp: exits_def)
  then show ?thesis
    by (simp add: dailyStats_processWebSocketData handle_exits_result process_statistics_frame)
qed

section \<open>The tick: what updateSimulation computes\<close>

lemma fst_simulate_customer: "fst (simulate_customer dt st c acc) = advance c"
  by (simp add: simulate_customer_def advance_def moving_def lerpFactor_def Let_def)

lemma snd_simulate_customer:
  "snd (simulate_customer dt st c acc) =
     (case cell_of st (pos (advance c)) of
        Some idx \<Rightarrow> if idx < length acc then acc[idx := acc ! idx + 0.02 * dt] else acc
      | None \<Rightarrow> acc)"
  by (simp add: simulate_customer_def advance_def moving_def lerpFactor_def cell_of_def
      COLS_def ROWS_def Let_def)

lemma fst_simulate_customers: "fst (simulate_customers dt st cs acc) = map advance cs"
  by (induction cs arbitrary: acc)
     (simp_all add: case_prod_beta Let_def fst_simulate_customer)

lemma length_snd_simulate_customer: "length (snd (simulate_customer dt st c acc)) = length acc"
  by (simp add: snd_simulate_customer split: option.splits)

lemma length_snd_simulate_customers: "length (snd (simulate_customers dt st cs acc)) = length acc"
  by (induction cs arbitrary: acc)
     (simp_all add: case_prod_beta Let_def length_snd_simulate_customer)

lemma nth_snd_simulate_customer:
  "i < length acc \<Longrightarrow> snd (simulate_customer dt st c acc) ! i =
     acc ! i + (if cell_of st (pos (advance c)) = Some i then 0.02 * dt else 0)"
  by (auto simp: snd_simulate_customer nth_list_update split: option.splits)

lemma nth_snd_simulate_customers:
  "i < length acc \<Longrightarrow> snd (simulate_customers dt st cs acc) ! i =
     acc ! i + 0.02 * dt * real (length (filter (\<lambda>c. cell_of st (pos (advance c)) = Some i) cs))"
proof (induction cs arbitrary: acc)
  case Nil
  then show ?case by simp
next
  case (Cons c cs)
  have len: "i < length (snd (simulate_customer dt st c acc))"
    using Cons.prems by (simp add: length_snd_simulate_customer)
  show ?case
    using Cons.IH [OF len] Cons.prems
    by (simp add: case_prod_beta Let_def nth_snd_simulate_customer algebra_simps)
qed

lemma customers_updateSimulation: "customers (updateSimulation time s) = map advance (customers s)"
  using fst_simulate_customers [of "(time - lastTime s) / 16.67" "store s" "customers s" "heatmapAccumulator s"]
  by (simp add: updateSimulation_def Let_def case_prod_beta)

lemma heatmapAccumulator_updateSimulation:
  "heatmapAccumulator (updateSimulation time s) =
     snd (simulate_customers ((time - lastTime s) / 16.67) (store s) (customers s) (heatmapAccumulator s))"
  by (simp add: updateSimulation_def Let_def case_prod_beta)

section \<open>One movement step\<close>

lemma advance_not_moving: "\<not> moving c \<Longrightarrow> advance c = c"
  by (simp add: advance_def)




section \<open>Facts about the example inputs and states\<close>

lemma snapshot_sel [simp]:
  "plan_data (snapshot e x ps) = ps"
  "entry_number (snapshot e x ps) = e"
  "short_dwell_number (snapshot e x ps) = x"
  "video_image (snapshot e x ps) = []"
  by (simp_all add: snapshot_def)

lemma person_sel [simp]:
  "track_id (person t g a b) = t"
  "position (person t g a b) = (a, b)"
  "PlanData.gender (person t g a b) = g"
  by (simp_all add: person_def)


lemma resting_facts:
  "length (customers resting_state) = 1"
  "pos (customers resting_state ! 0) = \<lparr>px = 10, py = 10\<rparr>"
  "target (customers resting_state ! 0) = \<lparr>px = 10, py = 10\<rparr>"
  "lastTime resting_state = 0"
  "currentStoreIdx resting_state = 0"
  "length (heatmapAccumulator resting_state) = 2501"
  by (simp_all add: resting_state_def customers_processWebSocketData frame_processWebSocketData
      customer_of_def new_customer_def targetPos_def Let_def initial_state_def
      snapshot_def person_def STORES_def COLS_def ROWS_def GRID_SIZE_def)



lemma resting_not_moving: "\<not> moving (customers resting_state ! 0)"
  by (simp add: moving_def resting_facts)


lemma cell_of_resting: "cell_of (STORES ! 0) \<lparr>px = 10, py = 10\<rparr> = Some 0"
  by (simp add: cell_of_def grid_sizes GRID_SIZE_def)

lemma visit_facts:
  "map id' (customers visit_state) = [''a'']"
  "entryTimes visit_state ''a'' = Some 1000"
  "completedVisits (dailyStats visit_state) = 0"
  "totalDwellTimeMs (dailyStats visit_state) = 0"
proof -
  let ?s1 = "processWebSocketData 0 1000 (snapshot 1 0 [person ''a'' ''male'' 10 10])
           (initial_state 0)"
  let ?s2 = "processWebSocketData 16 2000 (snapshot 1 0 [person ''a'' ''male'' 20 10]) ?s1"
  have ids: "map id' (customers ?s1) = [''a'']" "map id' (customers ?s2) = [''a'']"
    "map id' (customers visit_state) = [''a'']"
    by (simp_all add: visit_state_def customers_processWebSocketData id_customer_of)
  show "map id' (customers visit_state) = [''a'']" by (rule ids(3))
  have e1: "entryTimes ?s1 ''a'' = Some 1000"
    by (simp add: entryTimes_merge_present initial_state_def)
  have e2: "entryTimes ?s2 ''a'' = Some 1000"
    by (simp add: entryTimes_merge_present [of _ _ _ _ ?s1] e1)
  show "entryTimes visit_state ''a'' = Some 1000"
    unfolding visit_state_def
    by (simp add: entryTimes_merge_present [of _ _ _ _ ?s2] e2)
  have c1: "completedVisits (dailyStats ?s1) = 0 \<and> totalDwellTimeMs (dailyStats ?s1) = 0"
    by (simp add: completedVisits_merge_no_exit initial_state_def)
  have c2: "completedVisits (dailyStats ?s2) = 0 \<and> totalDwellTimeMs (dailyStats ?s2) = 0"
    using completedVisits_merge_no_exit [of ?s1 "snapshot 1 0 [person ''a'' ''male'' 20 10]" 16 2000]
      ids(1) c1
    by simp
  have c3: "completedVisits (dailyStats visit_state) = 0 \<and>
      totalDwellTimeMs (dailyStats visit_state) = 0"
    unfolding visit_state_def
    using completedVisits_merge_no_exit [of ?s2 "snapshot 1 0 [person ''a'' ''male'' 30 10]" 32 3000]
      ids(2) c2
    by simp
  show "completedVisits (dailyStats visit_state) = 0" using c3 by simp
  show "totalDwellTimeMs (dailyStats visit_state) = 0" using c3 by simp
qed

lemma run_to_switched_state:
  "run [Message 0 1000 (device_data (snapshot 1 0 [person ''a'' ''male'' 10 10])),
        Message 16 2000 (device_data (snapshot 1 0 [person ''a'' ''male'' 20 10])),
        Message 32 3000 (device_data (snapshot 1 0 [person ''a'' ''male'' 30 10])),
        SelectStore 1,
        Message 64 5000 (device_data (snapshot 1 0 [person ''a'' ''male'' 10 10]))]
     (initial_state 0) = Some switched_state"
proof -
  have "currentStoreIdx visit_state = 0"
    by (simp add: visit_state_def frame_processWebSocketData initial_state_def)
  then show ?thesis
    by (simp add: onmessage_device_data switched_state_def setCurrentStoreIdx_def STORES_def
        flip: visit_state_def)
qed

section \<open>Identity of the live entities\<close>

text \<open>
  C1 (as amended). After every merge the live set holds exactly one entity per record of
  the update's people list, in the order of the list, carrying that record's id. So the
  ids of the live set are unique exactly when the ids of the people list are distinct;
  an id that occurs more than once in one update yields one live entity per occurrence.
\<close>

theorem live_ids_are_update_ids:
  "map id' (customers (processWebSocketData now wall d s)) = map track_id (plan_data d) \<and>
   distinct (map id' (customers (processWebSocketData now wall d s))) =
     distinct (map track_id (plan_data d))"
proof -
  have "map id' (customers (processWebSocketData now wall d s)) = map track_id (plan_data d)"
    by (simp add: customers_processWebSocketData id_customer_of)
  then show ?thesis by simp
qed

text \<open>
  One update that names the id \<open>a\<close> twice leaves two live entities with the id \<open>a\<close>,
  the first record's as well as the last one's.
\<close>

theorem duplicate_ids_counterexample:
  "map id' (customers (processWebSocketData 0 0
      (snapshot 1 0 [person ''a'' ''male'' 10 10, person ''a'' ''male'' 200 200])
      (initial_state 0))) = [''a'', ''a''] \<and>
   map pos (customers (processWebSocketData 0 0
      (snapshot 1 0 [person ''a'' ''male'' 10 10, person ''a'' ''male'' 200 200])
      (initial_state 0))) = [\<lparr>px = 10, py = 10\<rparr>, \<lparr>px = 200, py = 200\<rparr>] \<and>
   \<not> distinct (map id' (customers (processWebSocketData 0 0
      (snapshot 1 0 [person ''a'' ''male'' 10 10, person ''a'' ''male'' 200 200])
      (initial_state 0))))"
  by (simp add: customers_processWebSocketData customer_of_def initial_state_def snapshot_def
      person_def new_customer_def targetPos_def Let_def)

section \<open>Rounding to the nearest double\<close>

lemma ulp_pos: "0 < ulp x"
  by (simp add: ulp_def)

lemma rne_bounds: "z - 1 / 2 \<le> of_int (rne z)" "of_int (rne z) \<le> z + 1 / 2"
  by (auto simp: rne_def Let_def) linarith+

lemma rne_of_int: "rne (of_int n) = n"
  by (simp add: rne_def)

lemma rne_mono: "x \<le> y \<Longrightarrow> rne x \<le> rne y"
proof (cases "x = y")
  case True
  then show ?thesis by simp
next
  case False
  assume "x \<le> y"
  with False have lt: "x < y" by simp
  have "real_of_int (rne x) \<le> x + 1 / 2" "y - 1 / 2 \<le> real_of_int (rne y)"
    by (rule rne_bounds)+
  with lt have "real_of_int (rne x) < real_of_int (rne y) + 1" by linarith
  then have "rne x < rne y + 1" by linarith
  then show ?thesis by simp
qed

lemma rne_zero: "0 \<le> z \<Longrightarrow> z < 1 / 2 \<Longrightarrow> rne z = 0"
proof -
  assume a: "0 \<le> z" "z < 1 / 2"
  then have "\<lfloor>z\<rfloor> = 0" by (simp add: floor_eq_iff)
  with a show ?thesis by (simp add: rne_def)
qed

lemma rne_minus: "rne (- z) = - rne z"
proof (cases "z = of_int \<lfloor>z\<rfloor>")
  case True
  then obtain n where "z = of_int n" by blast
  then show ?thesis
    by (metis of_int_minus rne_of_int)
next
  case False
  then have fl: "\<lfloor>- z\<rfloor> = - \<lfloor>z\<rfloor> - 1"
    by (metis Ints_of_int ceiling_altdef ceiling_def of_int_floor_cancel minus_diff_eq
        add_diff_cancel_left' diff_minus_eq_add minus_add_cancel neg_equal_iff_equal 
        diff_add_cancel uminus_add_conv_diff)
  show ?thesis
    unfolding rne_def Let_def fl
    by (auto simp: algebra_simps)
qed

lemma expo_minus: "expo (- x) = expo x"
  by (simp add: expo_def)

lemma ulp_minus: "ulp (- x) = ulp x"
  by (simp add: ulp_def expo_minus)

lemma round_nearest_minus: "round_nearest (- x) = - round_nearest x"
  by (simp add: round_nearest_def ulp_minus rne_minus)

lemma round_nearest_zero: "round_nearest 0 = 0"
  by (simp add: round_nearest_def)

lemma round_nearest_error: "\<bar>round_nearest x - x\<bar> \<le> ulp x / 2"
proof (cases "x = 0")
  case True
  then show ?thesis using ulp_pos [of x] by (simp add: round_nearest_def)
next
  case False
  let ?u = "ulp x"
  let ?z = "x / ?u"
  have u: "0 < ?u" by (rule ulp_pos)
  have "\<bar>of_int (rne ?z) - ?z\<bar> \<le> 1 / 2"
    using rne_bounds [of ?z] by linarith
  then have "?u * \<bar>of_int (rne ?z) - ?z\<bar> \<le> ?u * (1 / 2)"
    using u by (intro mult_left_mono) simp_all
  moreover have "?u * \<bar>of_int (rne ?z) - ?z\<bar> = \<bar>?u * of_int (rne ?z) - x\<bar>"
    using u by (simp add: abs_mult_pos' right_diff_distrib flip: abs_mult)
  ultimately show ?thesis
    using False by (simp add: round_nearest_def)
qed

lemma round_nearest_nonneg: "0 \<le> x \<Longrightarrow> 0 \<le> round_nearest x"
proof -
  assume x: "0 \<le> x"
  have "0 \<le> x / ulp x" using x ulp_pos [of x] by simp
  then have "rne 0 \<le> rne (x / ulp x)" by (rule rne_mono)
  then have "0 \<le> rne (x / ulp x)" using rne_of_int [of 0] by simp
  then show ?thesis
    using ulp_pos [of x] by (simp add: round_nearest_def)
qed

lemma round_nearest_le_twice: "0 \<le> x \<Longrightarrow> round_nearest x \<le> 2 * x"
proof (cases "x = 0")
  case True
  then show ?thesis by (simp add: round_nearest_def)
next
  case False
  assume "0 \<le> x"
  with False have x: "0 < x" by simp
  let ?u = "ulp x"
  let ?z = "x / ?u"
  have u: "0 < ?u" by (rule ulp_pos)
  have z: "0 < ?z" using x u by simp
  have "real_of_int (rne ?z) \<le> 2 * ?z"
  proof (cases "?z < 1 / 2")
    case True
    then have "rne ?z = 0" using z by (intro rne_zero) simp_all
    then show ?thesis using z by simp
  next
    case False
    then show ?thesis using rne_bounds(2) [of ?z] by linarith
  qed
  then have "?u * real_of_int (rne ?z) \<le> ?u * (2 * ?z)"
    using u by (intro mult_left_mono) simp_all
  then show ?thesis
    using x u by (simp add: round_nearest_def)
qed

lemma two_powr_int: "(2::real) powr real_of_int k = 2 powi k"
  by (simp add: powr_real_of_int')

lemma expo_ge: "- 1022 \<le> expo x"
  by (simp add: expo_def)

lemma abs_less_pow_expo:
  assumes "x \<noteq> 0"
  shows "\<bar>x\<bar> < 2 powi (expo x + 1)"
proof -
  let ?k = "\<lfloor>log 2 \<bar>x\<bar>\<rfloor>"
  have "2 powr real_of_int ?k \<le> \<bar>x\<bar> \<and> \<bar>x\<bar> < 2 powr (real_of_int ?k + 1)"
    using assms floor_log_eq_powr_iff [of "\<bar>x\<bar>" 2 ?k] by simp
  then have "\<bar>x\<bar> < 2 powr real_of_int (?k + 1)" by simp
  then have "\<bar>x\<bar> < 2 powi (?k + 1)" by (simp only: two_powr_int)
  also have "\<dots> \<le> 2 powi (expo x + 1)"
    by (intro power_int_increasing) (simp_all add: expo_def)
  finally show ?thesis .
qed

lemma pow_expo_le_abs:
  assumes "x \<noteq> 0" and "- 1022 < expo x"
  shows "2 powi expo x \<le> \<bar>x\<bar>"
proof -
  let ?k = "\<lfloor>log 2 \<bar>x\<bar>\<rfloor>"
  have k: "expo x = ?k" using assms(2) by (simp add: expo_def max_def split: if_splits)
  have "2 powr real_of_int ?k \<le> \<bar>x\<bar> \<and> \<bar>x\<bar> < 2 powr (real_of_int ?k + 1)"
    using assms floor_log_eq_powr_iff [of "\<bar>x\<bar>" 2 ?k] by simp
  then show ?thesis by (simp add: k two_powr_int)
qed

lemma expo_mono:
  assumes "x \<noteq> 0" and "\<bar>x\<bar> \<le> \<bar>y\<bar>"
  shows "expo x \<le> expo y"
proof -
  have "log 2 \<bar>x\<bar> \<le> log 2 \<bar>y\<bar>" using assms by simp
  then have "\<lfloor>log 2 \<bar>x\<bar>\<rfloor> \<le> \<lfloor>log 2 \<bar>y\<bar>\<rfloor>" by (rule floor_mono)
  then show ?thesis by (simp add: expo_def)
qed

lemma pow_le_abs_nonzero:
  fixes x :: real
  assumes "2 powi k \<le> \<bar>x\<bar>"
  shows "0 < \<bar>x\<bar>" and "x \<noteq> 0"
proof -
  have "(0::real) < 2 powi k" by simp
  with assms show "0 < \<bar>x\<bar>" by linarith
  then show "x \<noteq> 0" by simp
qed

lemma expo_eq:
  assumes "2 powi k \<le> \<bar>x\<bar>" and "\<bar>x\<bar> < 2 powi (k + 1)" and "- 1022 \<le> k"
  shows "expo x = k"
proof -
  have x: "0 < \<bar>x\<bar>"
    using assms(1) by (rule pow_le_abs_nonzero)
  have "2 powr real_of_int k \<le> \<bar>x\<bar> \<and> \<bar>x\<bar> < 2 powr (real_of_int k + 1)"
    using assms(1,2) two_powr_int [of k] two_powr_int [of "k + 1"] by simp
  then have "\<lfloor>log 2 \<bar>x\<bar>\<rfloor> = k"
    using x floor_log_eq_powr_iff [of "\<bar>x\<bar>" 2 k] by simp
  then show ?thesis using assms(3) by (simp add: expo_def)
qed

lemma ulp_scale: "ulp x * 2 ^ 53 = 2 powi (expo x + 1)" "ulp x * 2 ^ 52 = 2 powi expo x"
proof -
  have "ulp x * 2 powi 53 = 2 powi (expo x - 52 + 53)"
    unfolding ulp_def by (subst power_int_add) simp_all
  then show "ulp x * 2 ^ 53 = 2 powi (expo x + 1)" by (simp add: add.commute)
  have "ulp x * 2 powi 52 = 2 powi (expo x - 52 + 52)"
    unfolding ulp_def by (subst power_int_add) simp_all
  then show "ulp x * 2 ^ 52 = 2 powi expo x" by simp
qed

lemma round_nearest_le_pow:
  assumes "0 < x"
  shows "round_nearest x \<le> 2 powi (expo x + 1)"
proof -
  let ?u = "ulp x"
  have u: "0 < ?u" by (rule ulp_pos)
  have "x < 2 powi (expo x + 1)"
    using abs_less_pow_expo [of x] assms by simp
  then have "x < ?u * 2 ^ 53"
    by (simp only: ulp_scale)
  then have "x / ?u \<le> of_int (2 ^ 53)"
    using u by (simp add: pos_divide_le_eq mult.commute)
  then have "rne (x / ?u) \<le> rne (of_int (2 ^ 53))" by (rule rne_mono)
  then have "rne (x / ?u) \<le> 2 ^ 53" by (simp only: rne_of_int)
  then have "real_of_int (rne (x / ?u)) \<le> 2 ^ 53"
    by (metis of_int_le_iff of_int_numeral of_int_power)
  then have "?u * real_of_int (rne (x / ?u)) \<le> ?u * 2 ^ 53"
    using u by (intro mult_left_mono) simp_all
  then have "?u * real_of_int (rne (x / ?u)) \<le> 2 powi (expo x + 1)"
    by (simp only: ulp_scale)
  then show ?thesis
    using assms by (simp add: round_nearest_def)
qed

lemma round_nearest_ge_pow:
  assumes "0 < x" and "- 1022 < expo x"
  shows "2 powi expo x \<le> round_nearest x"
proof -
  let ?u = "ulp x"
  have u: "0 < ?u" by (rule ulp_pos)
  have "2 powi expo x \<le> x"
    using pow_expo_le_abs [of x] assms by simp
  then have "?u * 2 ^ 52 \<le> x"
    by (simp only: ulp_scale)
  then have "of_int (2 ^ 52) \<le> x / ?u"
    using u by (simp add: pos_le_divide_eq mult.commute)
  then have "rne (of_int (2 ^ 52)) \<le> rne (x / ?u)" by (rule rne_mono)
  then have "2 ^ 52 \<le> rne (x / ?u)" by (simp only: rne_of_int)
  then have "2 ^ 52 \<le> real_of_int (rne (x / ?u))"
    by (metis of_int_le_iff of_int_numeral of_int_power)
  then have "?u * 2 ^ 52 \<le> ?u * real_of_int (rne (x / ?u))"
    using u by (intro mult_left_mono) simp_all
  then have "2 powi expo x \<le> ?u * real_of_int (rne (x / ?u))"
    by (simp only: ulp_scale)
  then show ?thesis
    using assms by (simp add: round_nearest_def)
qed

lemma round_nearest_mono_pos:
  assumes "0 < x" and "x \<le> y"
  shows "round_nearest x \<le> round_nearest y"
proof -
  have y: "0 < y" using assms by simp
  have le: "expo x \<le> expo y"
    using assms by (intro expo_mono) simp_all
  show ?thesis
  proof (cases "expo x = expo y")
    case True
    then have u: "ulp x = ulp y" by (simp add: ulp_def)
    have "x / ulp y \<le> y / ulp y"
      using assms(2) ulp_pos [of y] by (simp add: divide_right_mono)
    then have "rne (x / ulp y) \<le> rne (y / ulp y)" by (rule rne_mono)
    then have "ulp y * real_of_int (rne (x / ulp y)) \<le> ulp y * real_of_int (rne (y / ulp y))"
      using ulp_pos [of y] by (intro mult_left_mono) simp_all
    then show ?thesis
      using assms(1) y by (simp add: round_nearest_def u)
  next
    case False
    with le have lt: "expo x + 1 \<le> expo y" by simp
    then have "- 1022 < expo y" using expo_ge [of x] by linarith
    then have "2 powi expo y \<le> round_nearest y"
      using y by (intro round_nearest_ge_pow)
    moreover have "round_nearest x \<le> 2 powi (expo x + 1)"
      using assms(1) by (rule round_nearest_le_pow)
    moreover have "(2::real) powi (expo x + 1) \<le> 2 powi expo y"
      using lt by (intro power_int_increasing) simp_all
    ultimately show ?thesis by linarith
  qed
qed

lemma round_nearest_mono: "x \<le> y \<Longrightarrow> round_nearest x \<le> round_nearest y"
proof -
  assume xy: "x \<le> y"
  consider "0 < x" | "x \<le> 0" "0 \<le> y" | "y < 0" by linarith
  then show ?thesis
  proof cases
    case 1
    then show ?thesis using xy by (rule round_nearest_mono_pos)
  next
    case 2
    have "round_nearest x \<le> 0"
      using round_nearest_nonneg [of "- x"] 2(1) by (simp add: round_nearest_minus)
    moreover have "0 \<le> round_nearest y"
      using 2(2) by (rule round_nearest_nonneg)
    ultimately show ?thesis by simp
  next
    case 3
    then have "round_nearest (- y) \<le> round_nearest (- x)"
      using xy by (intro round_nearest_mono_pos) simp_all
    then show ?thesis by (simp add: round_nearest_minus)
  qed
qed

lemma expo_le:
  assumes "\<bar>x\<bar> < 2 powi (k + 1)" and "- 1022 \<le> k" and "x \<noteq> 0"
  shows "expo x \<le> k"
proof (rule ccontr)
  assume "\<not> expo x \<le> k"
  then have gt: "k + 1 \<le> expo x" by simp
  then have "- 1022 < expo x" using assms(2) by linarith
  with assms(3) have "2 powi expo x \<le> \<bar>x\<bar>" by (intro pow_expo_le_abs)
  moreover have "(2::real) powi (k + 1) \<le> 2 powi expo x"
    using gt by (intro power_int_increasing) simp_all
  ultimately show False using assms(1) by linarith
qed

lemma expo_ge_pow:
  assumes "2 powi k \<le> \<bar>x\<bar>"
  shows "k \<le> expo x"
proof (rule ccontr)
  assume "\<not> k \<le> expo x"
  then have lt: "expo x + 1 \<le> k" by simp
  have x: "x \<noteq> 0"
    using assms by (rule pow_le_abs_nonzero)
  have "\<bar>x\<bar> < 2 powi (expo x + 1)" using x by (rule abs_less_pow_expo)
  moreover have "(2::real) powi (expo x + 1) \<le> 2 powi k"
    using lt by (intro power_int_increasing) simp_all
  ultimately show False using assms by linarith
qed

lemma round_nearest_idem_pos:
  assumes "0 < x"
  shows "round_nearest (round_nearest x) = round_nearest x"
proof -
  let ?e = "expo x"
  let ?u = "ulp x"
  let ?n = "rne (x / ?u)"
  let ?r = "round_nearest x"
  have u: "0 < ?u" by (rule ulp_pos)
  have r: "?r = ?u * of_int ?n" using assms by (simp add: round_nearest_def)
  have r0: "0 \<le> ?r" using assms by (intro round_nearest_nonneg) simp
  have rle: "?r \<le> 2 powi (?e + 1)" using assms by (rule round_nearest_le_pow)
  show ?thesis
  proof (cases "?r = 0")
    case True
    then show ?thesis by (simp add: round_nearest_zero)
  next
    case False
    with r0 have rpos: "0 < ?r" by simp
    show ?thesis
    proof (cases "?r = 2 powi (?e + 1)")
      case True
      have e1: "expo ?r = ?e + 1"
      proof (rule expo_eq)
        show "2 powi (?e + 1) \<le> \<bar>?r\<bar>" using True by simp
        have "(2::real) powi (?e + 1) < 2 powi (?e + 1 + 1)"
          by (intro power_int_strict_increasing) simp_all
        then show "\<bar>?r\<bar> < 2 powi (?e + 1 + 1)" using True by simp
        show "- 1022 \<le> ?e + 1" using expo_ge [of x] by linarith
      qed
      have "ulp ?r * 2 ^ 52 = 2 powi expo ?r" by (rule ulp_scale(2))
      also have "\<dots> = 2 powi (?e + 1)" by (simp only: e1)
      also have "\<dots> = ?r" using True by simp
      finally have "ulp ?r * 2 ^ 52 = ?r" .
      then have q: "?r / ulp ?r = of_int (2 ^ 52)"
        using ulp_pos [of ?r] by (simp add: field_simps)
      have "rne (?r / ulp ?r) = 2 ^ 52"
        unfolding q by (rule rne_of_int)
      then have "ulp ?r * of_int (rne (?r / ulp ?r)) = ulp ?r * 2 ^ 52"
        by simp
      also have "\<dots> = ?r" by fact
      finally show ?thesis
        using rpos by (simp add: round_nearest_def [of ?r])
    next
      case False
      with rle have rlt: "?r < 2 powi (?e + 1)" by simp
      have "expo ?r \<le> ?e"
        using rlt rpos expo_ge [of x] by (intro expo_le) simp_all
      moreover have "?e \<le> expo ?r"
      proof (cases "- 1022 < ?e")
        case True
        then have "2 powi ?e \<le> ?r" using assms by (intro round_nearest_ge_pow)
        then show ?thesis using rpos by (intro expo_ge_pow) simp
      next
        case False
        then have "?e = - 1022" using expo_ge [of x] by linarith
        then show ?thesis using expo_ge [of ?r] by simp
      qed
      ultimately have e: "expo ?r = ?e" by simp
      then have uu: "ulp ?r = ?u" by (simp add: ulp_def)
      have "?r / ?u = of_int ?n" using u by (simp add: r)
      then have n: "rne (?r / ?u) = ?n" by (simp only: rne_of_int)
      have "round_nearest ?r = ulp ?r * of_int (rne (?r / ulp ?r))"
        using rpos by (simp add: round_nearest_def [of ?r])
      also have "\<dots> = ?u * of_int (rne (?r / ?u))" by (simp only: uu)
      also have "\<dots> = ?u * of_int ?n" by (simp only: n)
      also have "\<dots> = ?r" by (simp only: r)
      finally show ?thesis .
    qed
  qed
qed

lemma round_nearest_idem: "round_nearest (round_nearest x) = round_nearest x"
proof -
  consider "0 < x" | "x = 0" | "x < 0" by linarith
  then show ?thesis
  proof cases
    case 1
    then show ?thesis by (rule round_nearest_idem_pos)
  next
    case 2
    then show ?thesis by (simp add: round_nearest_zero)
  next
    case 3
    then have "round_nearest (round_nearest (- x)) = round_nearest (- x)"
      by (intro round_nearest_idem_pos) simp
    then show ?thesis by (simp add: round_nearest_minus)
  qed
qed

lemma round_nearest_eval:
  assumes "2 powi k \<le> \<bar>x\<bar>" and "\<bar>x\<bar> < 2 powi (k + 1)" and "- 1022 \<le> k"
  shows "round_nearest x = 2 powi (k - 52) * of_int (rne (x / 2 powi (k - 52)))"
proof -
  have "expo x = k" using assms by (rule expo_eq)
  moreover have "x \<noteq> 0"
    using assms(1) by (rule pow_le_abs_nonzero)
  ultimately show ?thesis by (simp add: round_nearest_def ulp_def)
qed

lemma lerpFactor_double_value: "lerpFactor_double = 5404319552844595 / 2 ^ 55"
  unfolding lerpFactor_double_def
  by (subst round_nearest_eval [where k = "- 3"]) (simp_all add: rne_def power_int_minus)

lemma half_lerpFactor_double: "round_nearest (lerpFactor_double / 2) = lerpFactor_double / 2"
  unfolding lerpFactor_double_value
  by (subst round_nearest_eval [where k = "- 4"]) (simp_all add: rne_def power_int_minus)

lemma lerpFactor_double_bounds:
  "0 < lerpFactor_double" "lerpFactor_double \<le> 15 / 100" "1 / 8 < lerpFactor_double"
  by (simp_all add: lerpFactor_double_value)

lemma axis_move_bounds:
  assumes "p \<le> t"
  shows "0 \<le> round_nearest (round_nearest (t - p) * lerpFactor_double)"
    and "round_nearest (round_nearest (t - p) * lerpFactor_double) \<le> t - p"
    and "0 \<le> round_nearest (t - p)"
    and "round_nearest (t - p) \<le> 2 * (t - p)"
proof -
  let ?d = "round_nearest (t - p)"
  let ?s = "round_nearest (?d * lerpFactor_double)"
  have D: "0 \<le> t - p" using assms by simp
  show d0: "0 \<le> ?d" using D by (rule round_nearest_nonneg)
  show d2: "?d \<le> 2 * (t - p)" using D by (rule round_nearest_le_twice)
  have m0: "0 \<le> ?d * lerpFactor_double"
    using d0 lerpFactor_double_bounds(1) by simp
  show "0 \<le> ?s" using m0 by (rule round_nearest_nonneg)
  have "?s \<le> 2 * (?d * lerpFactor_double)" using m0 by (rule round_nearest_le_twice)
  also have "\<dots> \<le> 2 * (?d * (15 / 100))"
    using d0 lerpFactor_double_bounds(2) by (intro mult_left_mono) simp_all
  also have "\<dots> \<le> 2 * ((2 * (t - p)) * (15 / 100))"
    using d2 by (intro mult_left_mono mult_right_mono) simp_all
  also have "\<dots> \<le> t - p" using D by simp
  finally show "?s \<le> t - p" .
qed

lemma axis_step_up:
  assumes "round_nearest p = p" and "round_nearest t = t" and "p \<le> t"
  shows "p \<le> axis_step p t" and "axis_step p t \<le> t"
proof -
  let ?s = "round_nearest (round_nearest (t - p) * lerpFactor_double)"
  have "round_nearest p \<le> round_nearest (p + ?s)"
    using axis_move_bounds(1) [OF assms(3)] by (intro round_nearest_mono) simp
  then show "p \<le> axis_step p t" by (simp add: axis_step_def assms(1))
  have "round_nearest (p + ?s) \<le> round_nearest t"
    using axis_move_bounds(2) [OF assms(3)] by (intro round_nearest_mono) simp
  then show "axis_step p t \<le> t" by (simp add: axis_step_def assms(2))
qed

lemma axis_step_up_strict:
  assumes "p \<le> t" and "1 / 2 < round_nearest (t - p)"
    and "\<bar>p\<bar> \<le> 2 ^ 49" and "\<bar>t\<bar> \<le> 2 ^ 49"
  shows "p < axis_step p t"
proof -
  let ?d = "round_nearest (t - p)"
  let ?s = "round_nearest (?d * lerpFactor_double)"
  let ?x = "p + ?s"
  have "lerpFactor_double / 2 \<le> ?d * lerpFactor_double"
    using assms(2) lerpFactor_double_bounds(1) by (simp add: field_simps)
  then have "round_nearest (lerpFactor_double / 2) \<le> ?s" by (rule round_nearest_mono)
  then have s: "lerpFactor_double / 2 \<le> ?s" by (simp only: half_lerpFactor_double)
  then have s16: "1 / 16 < ?s" using lerpFactor_double_bounds(3) by linarith
  have xt: "?x \<le> t" using axis_move_bounds(2) [OF assms(1)] by simp
  have px: "p < ?x" using s16 by simp
  have "\<bar>?x\<bar> \<le> 2 ^ 49" using xt px assms(3,4) by linarith
  also have "(2::real) ^ 49 < 2 powi (49 + 1)" by simp
  finally have ax: "\<bar>?x\<bar> < 2 powi (49 + 1)" .
  show ?thesis
  proof (cases "?x = 0")
    case True
    then have "round_nearest ?x = ?x" by (simp only: round_nearest_zero)
    with px show ?thesis by (simp add: axis_step_def)
  next
    case False
    have "expo ?x \<le> 49" using ax _ False by (rule expo_le) simp
    then have "(2::real) powi (expo ?x - 52) \<le> 2 powi (- 3)"
      by (intro power_int_increasing) simp_all
    then have "ulp ?x \<le> 1 / 8" by (simp add: ulp_def power_int_minus)
    then have "\<bar>round_nearest ?x - ?x\<bar> \<le> 1 / 16"
      using round_nearest_error [of ?x] by linarith
    then have "?x - 1 / 16 \<le> round_nearest ?x" by linarith
    with s16 show ?thesis by (simp add: axis_step_def)
  qed
qed

lemma axis_step_minus: "axis_step (- p) (- t) = - axis_step p t"
proof -
  have a: "- t - - p = - (t - p)" by simp
  have b: "- round_nearest (t - p) * lerpFactor_double =
      - (round_nearest (t - p) * lerpFactor_double)" by simp
  have c: "- p + - round_nearest (round_nearest (t - p) * lerpFactor_double) =
      - (p + round_nearest (round_nearest (t - p) * lerpFactor_double))" by simp
  show ?thesis
    unfolding axis_step_def a round_nearest_minus b c ..
qed

lemma axis_step_between:
  assumes "round_nearest p = p" and "round_nearest t = t"
  shows "(p \<le> t \<longrightarrow> p \<le> axis_step p t \<and> axis_step p t \<le> t) \<and>
         (t \<le> p \<longrightarrow> t \<le> axis_step p t \<and> axis_step p t \<le> p)"
proof -
  have up: "p \<le> t \<longrightarrow> p \<le> axis_step p t \<and> axis_step p t \<le> t"
    using axis_step_up [OF assms] by blast
  have "round_nearest (- p) = - p" "round_nearest (- t) = - t"
    by (simp_all add: round_nearest_minus assms)
  then have "- p \<le> - t \<longrightarrow> - p \<le> axis_step (- p) (- t) \<and> axis_step (- p) (- t) \<le> - t"
    using axis_step_up [of "- p" "- t"] by blast
  then have "t \<le> p \<longrightarrow> t \<le> axis_step p t \<and> axis_step p t \<le> p"
    by (simp add: axis_step_minus)
  with up show ?thesis by blast
qed

lemma axis_step_no_overshoot:
  assumes "round_nearest p = p" and "round_nearest t = t"
  shows "0 \<le> (t - axis_step p t) * (t - p)" and "\<bar>t - axis_step p t\<bar> \<le> \<bar>t - p\<bar>"
    and "\<bar>axis_step p t\<bar> \<le> max \<bar>p\<bar> \<bar>t\<bar>"
proof -
  note b = axis_step_between [OF assms]
  show "0 \<le> (t - axis_step p t) * (t - p)"
  proof (cases "p \<le> t")
    case True
    with b show ?thesis by (intro mult_nonneg_nonneg) simp_all
  next
    case False
    with b show ?thesis by (intro mult_nonpos_nonpos) simp_all
  qed
  show "\<bar>t - axis_step p t\<bar> \<le> \<bar>t - p\<bar>"
    using b by (cases "p \<le> t") simp_all
  show "\<bar>axis_step p t\<bar> \<le> max \<bar>p\<bar> \<bar>t\<bar>"
    using b by (cases "p \<le> t") (simp_all add: max_def, linarith+)
qed

lemma axis_step_strict:
  assumes "round_nearest p = p" and "round_nearest t = t"
    and "\<bar>p\<bar> \<le> 2 ^ 49" and "\<bar>t\<bar> \<le> 2 ^ 49"
    and "1 / 2 < \<bar>round_nearest (t - p)\<bar>"
  shows "\<bar>t - axis_step p t\<bar> < \<bar>t - p\<bar>"
proof (cases "p \<le> t")
  case True
  then have "0 \<le> round_nearest (t - p)" by (intro round_nearest_nonneg) simp
  with assms(5) have "1 / 2 < round_nearest (t - p)" by simp
  then have "p < axis_step p t"
    using True assms(3,4) by (intro axis_step_up_strict)
  moreover have "axis_step p t \<le> t"
    using axis_step_between [OF assms(1,2)] True by blast
  ultimately show ?thesis by simp
next
  case False
  then have le: "- p \<le> - t" by simp
  have "round_nearest (- t - - p) = - round_nearest (t - p)"
    using round_nearest_minus [of "t - p"] by simp
  moreover have "0 \<le> round_nearest (- t - - p)"
    using le by (intro round_nearest_nonneg) simp
  ultimately have "1 / 2 < round_nearest (- t - - p)" using assms(5) by simp
  then have "- p < axis_step (- p) (- t)"
    using le assms(3,4) by (intro axis_step_up_strict) simp_all
  then have "axis_step p t < p" by (simp add: axis_step_minus)
  moreover have "t \<le> axis_step p t"
    using axis_step_between [OF assms(1,2)] False by simp
  ultimately show ?thesis by simp
qed

lemma axis_step_double: "round_nearest (axis_step p t) = axis_step p t"
  by (simp add: axis_step_def round_nearest_idem)

lemma sqrt_sum_squares_less:
  fixes a b c d :: real
  assumes "\<bar>a\<bar> \<le> \<bar>c\<bar>" and "\<bar>b\<bar> \<le> \<bar>d\<bar>" and "\<bar>a\<bar> < \<bar>c\<bar> \<or> \<bar>b\<bar> < \<bar>d\<bar>"
  shows "sqrt (a\<^sup>2 + b\<^sup>2) < sqrt (c\<^sup>2 + d\<^sup>2)"
proof -
  have "a\<^sup>2 \<le> c\<^sup>2" "b\<^sup>2 \<le> d\<^sup>2"
    using assms(1,2) by (simp_all add: abs_le_square_iff)
  moreover have "a\<^sup>2 < c\<^sup>2 \<or> b\<^sup>2 < d\<^sup>2"
    using assms(3) power2_less_imp_less [of "\<bar>c\<bar>" "\<bar>a\<bar>"] power2_less_imp_less [of "\<bar>d\<bar>" "\<bar>b\<bar>"]
      power_strict_mono [of "\<bar>a\<bar>" "\<bar>c\<bar>" 2] power_strict_mono [of "\<bar>b\<bar>" "\<bar>d\<bar>" 2]
    by auto
  ultimately have "a\<^sup>2 + b\<^sup>2 < c\<^sup>2 + d\<^sup>2" by linarith
  then show ?thesis by simp
qed

lemma abs_round_nearest_le_twice: "\<bar>round_nearest x\<bar> \<le> 2 * \<bar>x\<bar>"
proof (cases "0 \<le> x")
  case True
  then show ?thesis
    using round_nearest_nonneg [of x] round_nearest_le_twice [of x] by simp
next
  case False
  then have "0 \<le> - x" by simp
  then have "0 \<le> round_nearest (- x)" "round_nearest (- x) \<le> 2 * (- x)"
    by (rule round_nearest_nonneg, rule round_nearest_le_twice)
  then show ?thesis using False by (simp add: round_nearest_minus)
qed

lemma round_nearest_half: "round_nearest (1 / 2) = 1 / 2"
  by (subst round_nearest_eval [where k = "- 1"]) (simp_all add: rne_def power_int_minus)

lemma small_displacement_not_moving:
  assumes "\<bar>D\<bar> \<le> 1 / 2"
  shows "\<bar>round_nearest D\<bar> \<le> 1 / 2"
proof -
  have "round_nearest D \<le> round_nearest (1 / 2)"
    using assms by (intro round_nearest_mono) simp
  moreover have "round_nearest (- (1 / 2)) \<le> round_nearest D"
    using assms by (intro round_nearest_mono) simp
  ultimately show ?thesis
    by (simp add: round_nearest_minus round_nearest_half)
qed

lemma finite_double_bound: "\<bar>r\<bar> \<le> 2 ^ 52 \<Longrightarrow> finite_double r"
proof -
  assume "\<bar>r\<bar> \<le> 2 ^ 52"
  also have "(2::real) ^ 52 < 2 ^ 1024"
    by (intro power_strict_increasing) simp_all
  finally show ?thesis by (simp only: finite_double_def)
qed

lemma step_double_eq:
  assumes "in_range p" and "in_range t"
  shows "step_double p t =
     Some (if moving_double p t
           then \<lparr>px = axis_step (px p) (px t), py = axis_step (py p) (py t)\<rparr>
           else p)"
proof -
  let ?dx = "round_nearest (px t - px p)"
  let ?dy = "round_nearest (py t - py p)"
  let ?mx = "round_nearest (?dx * lerpFactor_double)"
  let ?my = "round_nearest (?dy * lerpFactor_double)"
  note r = assms [unfolded in_range_def]
  have "\<bar>px t - px p\<bar> \<le> \<bar>px t\<bar> + \<bar>px p\<bar>" by (rule abs_triangle_ineq4)
  then have dx: "\<bar>?dx\<bar> \<le> 2 ^ 51"
    using abs_round_nearest_le_twice [of "px t - px p"] r by simp
  have "\<bar>py t - py p\<bar> \<le> \<bar>py t\<bar> + \<bar>py p\<bar>" by (rule abs_triangle_ineq4)
  then have dy: "\<bar>?dy\<bar> \<le> 2 ^ 51"
    using abs_round_nearest_le_twice [of "py t - py p"] r by simp
  have lf: "\<bar>lerpFactor_double\<bar> \<le> 1 / 2"
    using lerpFactor_double_bounds by simp
  have "\<bar>?dx * lerpFactor_double\<bar> \<le> 2 ^ 51 * (1 / 2)"
    unfolding abs_mult using dx lf by (intro mult_mono) simp_all
  then have mx: "\<bar>?mx\<bar> \<le> 2 ^ 51"
    using abs_round_nearest_le_twice [of "?dx * lerpFactor_double"] by simp
  have "\<bar>?dy * lerpFactor_double\<bar> \<le> 2 ^ 51 * (1 / 2)"
    unfolding abs_mult using dy lf by (intro mult_mono) simp_all
  then have my: "\<bar>?my\<bar> \<le> 2 ^ 51"
    using abs_round_nearest_le_twice [of "?dy * lerpFactor_double"] by simp
  have "max \<bar>px p\<bar> \<bar>px t\<bar> \<le> 2 ^ 49" "max \<bar>py p\<bar> \<bar>py t\<bar> \<le> 2 ^ 49"
    using r by simp_all
  moreover have "\<bar>axis_step (px p) (px t)\<bar> \<le> max \<bar>px p\<bar> \<bar>px t\<bar>"
    "\<bar>axis_step (py p) (py t)\<bar> \<le> max \<bar>py p\<bar> \<bar>py t\<bar>"
    using r by (simp_all add: axis_step_no_overshoot(3))
  ultimately have x1: "\<bar>axis_step (px p) (px t)\<bar> \<le> 2 ^ 49"
    and y1: "\<bar>axis_step (py p) (py t)\<bar> \<le> 2 ^ 49"
    by (blast intro: order_trans)+
  have fin: "finite_double ?dx" "finite_double ?dy" "finite_double ?mx" "finite_double ?my"
    "finite_double (axis_step (px p) (px t))"
    "finite_double (axis_step (py p) (py t))"
    using dx dy mx my x1 y1 by (auto intro!: finite_double_bound)
  show ?thesis
    using fin by (simp add: step_double_def moving_double_def Let_def axis_step_def)
qed

lemma step_double_in_range:
  assumes "in_range p" and "in_range t" and "step_double p t = Some p1"
  shows "in_range p1"
proof (cases "moving_double p t")
  case False
  then show ?thesis using assms by (simp add: step_double_eq)
next
  case True
  note r = assms(1,2) [unfolded in_range_def]
  have "max \<bar>px p\<bar> \<bar>px t\<bar> \<le> 2 ^ 49" "max \<bar>py p\<bar> \<bar>py t\<bar> \<le> 2 ^ 49"
    using r by simp_all
  moreover have "\<bar>axis_step (px p) (px t)\<bar> \<le> max \<bar>px p\<bar> \<bar>px t\<bar>"
    "\<bar>axis_step (py p) (py t)\<bar> \<le> max \<bar>py p\<bar> \<bar>py t\<bar>"
    using r by (simp_all add: axis_step_no_overshoot(3))
  ultimately have "\<bar>axis_step (px p) (px t)\<bar> \<le> 2 ^ 49" "\<bar>axis_step (py p) (py t)\<bar> \<le> 2 ^ 49"
    by (blast intro: order_trans)+
  then show ?thesis
    using assms True by (auto simp: step_double_eq in_range_def axis_step_double)
qed

lemma step_double_distance:
  assumes "in_range p" and "in_range t" and "step_double p t = Some p1"
  shows "0 \<le> (px t - px p1) * (px t - px p)" and "0 \<le> (py t - py p1) * (py t - py p)"
    and "\<bar>px t - px p1\<bar> \<le> \<bar>px t - px p\<bar>" and "\<bar>py t - py p1\<bar> \<le> \<bar>py t - py p\<bar>"
    and "distance p1 t \<le> distance p t"
    and "moving_double p t \<Longrightarrow> distance p1 t < distance p t"
proof -
  note r = assms(1,2) [unfolded in_range_def]
  have p1: "p1 = (if moving_double p t
           then \<lparr>px = axis_step (px p) (px t), py = axis_step (py p) (py t)\<rparr> else p)"
    using assms by (simp add: step_double_eq)
  show sx: "0 \<le> (px t - px p1) * (px t - px p)" and sy: "0 \<le> (py t - py p1) * (py t - py p)"
    using r by (simp_all add: p1 axis_step_no_overshoot(1))
  show ax: "\<bar>px t - px p1\<bar> \<le> \<bar>px t - px p\<bar>" and ay: "\<bar>py t - py p1\<bar> \<le> \<bar>py t - py p\<bar>"
    using r by (simp_all add: p1 axis_step_no_overshoot(2))
  have ax': "\<bar>px p1 - px t\<bar> \<le> \<bar>px p - px t\<bar>" and ay': "\<bar>py p1 - py t\<bar> \<le> \<bar>py p - py t\<bar>"
    using ax ay by (simp_all add: abs_minus_commute)
  have "(px p1 - px t)\<^sup>2 \<le> (px p - px t)\<^sup>2" "(py p1 - py t)\<^sup>2 \<le> (py p - py t)\<^sup>2"
    using ax' ay' by (simp_all only: abs_le_square_iff)
  then show "distance p1 t \<le> distance p t"
    by (simp add: distance_def add_mono)
  show "distance p1 t < distance p t" if m: "moving_double p t"
  proof -
    have "\<bar>px t - px p1\<bar> < \<bar>px t - px p\<bar> \<or> \<bar>py t - py p1\<bar> < \<bar>py t - py p\<bar>"
      using m r axis_step_strict [of "px p" "px t"] axis_step_strict [of "py p" "py t"]
      by (auto simp: p1 moving_double_def)
    then have "\<bar>px p1 - px t\<bar> < \<bar>px p - px t\<bar> \<or> \<bar>py p1 - py t\<bar> < \<bar>py p - py t\<bar>"
      by (simp add: abs_minus_commute)
    then show ?thesis
      unfolding distance_def using ax' ay' by (intro sqrt_sum_squares_less)
  qed
qed

lemma steps_double_frozen:
  assumes "in_range p" and "in_range t" and "\<not> moving_double p t"
  shows "steps_double n p t = Some p"
  using assms by (induction n) (simp_all add: step_double_eq)

lemma steps_double_in_range:
  assumes "in_range p" and "in_range t"
  shows "\<exists>q. steps_double n p t = Some q \<and> in_range q \<and> distance q t \<le> distance p t"
  using assms(1)
proof (induction n arbitrary: p)
  case 0
  then show ?case by simp
next
  case (Suc n)
  obtain p1 where p1: "step_double p t = Some p1"
    using step_double_eq [OF Suc.prems assms(2)] by blast
  have r1: "in_range p1"
    using Suc.prems assms(2) p1 by (rule step_double_in_range)
  have d1: "distance p1 t \<le> distance p t"
    using Suc.prems assms(2) p1 by (rule step_double_distance(5))
  obtain q where "steps_double n p1 t = Some q" "in_range q" "distance q t \<le> distance p1 t"
    using Suc.IH [OF r1] by blast
  with p1 d1 show ?case by auto
qed

lemma steps_double_fixed: "step_double p t = Some p \<Longrightarrow> steps_double n p t = Some p"
  by (induction n) simp_all

lemma round_nearest_examples:
  "round_nearest 16 = 16"
  "round_nearest 1000 = 1000"
  "round_nearest 100000000000000000 = 100000000000000000"
  "round_nearest 100000000000000016 = 100000000000000016"
  "round_nearest (16 * lerpFactor_double) = 16 * lerpFactor_double"
  "round_nearest (100000000000000000 + 16 * lerpFactor_double) = 100000000000000000"
proof -
  show "round_nearest 16 = 16"
    by (subst round_nearest_eval [where k = 4]) (simp_all add: rne_def power_int_minus)
  show "round_nearest 1000 = 1000"
    by (subst round_nearest_eval [where k = 9]) (simp_all add: rne_def power_int_minus)
  show "round_nearest 100000000000000000 = 100000000000000000"
    by (subst round_nearest_eval [where k = 56]) (simp_all add: rne_def)
  show "round_nearest 100000000000000016 = 100000000000000016"
    by (subst round_nearest_eval [where k = 56]) (simp_all add: rne_def)
  show "round_nearest (16 * lerpFactor_double) = 16 * lerpFactor_double"
    unfolding lerpFactor_double_value
    by (subst round_nearest_eval [where k = 1]) (simp_all add: rne_def power_int_minus)
  show "round_nearest (100000000000000000 + 16 * lerpFactor_double) = 100000000000000000"
    unfolding lerpFactor_double_value
    by (subst round_nearest_eval [where k = 56]) (simp_all add: rne_def)
qed

section \<open>Convergence of the displayed position\<close>

text \<open>
  C2 (as amended). Let the coordinates of an entity's position and of its target be doubles
  of magnitude at most \<open>2 ^ 49\<close>, and let the position be updated as the loop body does it
  in double arithmetic, with the target fixed. Then the step is defined and the new
  position is again within that range, so that the following holds for every further step
  too. The step strictly decreases the distance to the target as long as the displacement
  the code computes exceeds 0.5 in absolute value on one axis; otherwise (in particular
  when both axis displacements are at most 0.5) the position stays exactly the same on
  every further step; and no step overshoots the target: on each axis the displacement
  keeps its sign and does not grow.
\<close>

theorem double_step_converges:
  assumes "in_range p" and "in_range t"
  shows "\<exists>p1. step_double p t = Some p1 \<and> in_range p1 \<and>
      (moving_double p t \<longrightarrow> distance p1 t < distance p t) \<and>
      (\<not> moving_double p t \<longrightarrow> (\<forall>n. steps_double n p t = Some p)) \<and>
      (\<bar>px t - px p\<bar> \<le> 1 / 2 \<and> \<bar>py t - py p\<bar> \<le> 1 / 2 \<longrightarrow> \<not> moving_double p t) \<and>
      0 \<le> (px t - px p1) * (px t - px p) \<and>
      0 \<le> (py t - py p1) * (py t - py p) \<and>
      \<bar>px t - px p1\<bar> \<le> \<bar>px t - px p\<bar> \<and>
      \<bar>py t - py p1\<bar> \<le> \<bar>py t - py p\<bar> \<and>
      (\<forall>n. \<exists>q. steps_double n p t = Some q \<and> in_range q \<and> distance q t \<le> distance p t)"
proof -
  obtain p1 where p1: "step_double p t = Some p1"
    using step_double_eq [OF assms] by blast
  note d = step_double_distance [OF assms p1]
  have small: "\<bar>px t - px p\<bar> \<le> 1 / 2 \<and> \<bar>py t - py p\<bar> \<le> 1 / 2 \<longrightarrow> \<not> moving_double p t"
    using small_displacement_not_moving [of "px t - px p"]
      small_displacement_not_moving [of "py t - py p"]
    by (auto simp: moving_double_def)
  show ?thesis
    using p1 step_double_in_range [OF assms p1] d(1-4) d(6) small
      steps_double_frozen [OF assms] steps_double_in_range [OF assms]
    by blast
qed

text \<open>
  From (0, 0) towards (1000, 0) one step gets closer and does not pass the target.
\<close>

theorem double_step_converges_witness:
  "\<exists>p1. step_double \<lparr>px = 0, py = 0\<rparr> \<lparr>px = 1000, py = 0\<rparr> = Some p1 \<and>
      distance p1 \<lparr>px = 1000, py = 0\<rparr> < distance \<lparr>px = 0, py = 0\<rparr> \<lparr>px = 1000, py = 0\<rparr> \<and>
      \<bar>px \<lparr>px = 1000, py = 0::real\<rparr> - px p1\<bar> \<le> 1000"
proof -
  have r: "in_range \<lparr>px = 0, py = 0\<rparr>" "in_range \<lparr>px = 1000, py = 0\<rparr>"
    by (simp_all add: in_range_def round_nearest_zero round_nearest_examples)
  have m: "moving_double \<lparr>px = 0, py = 0\<rparr> \<lparr>px = 1000, py = 0\<rparr>"
    by (simp add: moving_double_def round_nearest_examples)
  from double_step_converges [OF r] m show ?thesis
    by auto
qed

text \<open>
  For large coordinates the step is lost in the rounding: at \<open>pos.x = 1e17\<close> with
  \<open>target.x = 1e17 + 16\<close> the displacement is 16, the step of about 2.4 is less than half
  the spacing of the doubles there (16), and the position never changes.
\<close>

theorem absorbed_step_counterexample:
  "round_nearest 100000000000000000 = 100000000000000000 \<and>
   round_nearest 100000000000000016 = 100000000000000016 \<and>
   1 / 2 < \<bar>px \<lparr>px = 100000000000000016, py = 0\<rparr> - px \<lparr>px = 100000000000000000, py = 0\<rparr>\<bar> \<and>
   step_double \<lparr>px = 100000000000000000, py = 0\<rparr> \<lparr>px = 100000000000000016, py = 0\<rparr> =
     Some \<lparr>px = 100000000000000000, py = 0\<rparr> \<and>
   (\<forall>n. steps_double n \<lparr>px = 100000000000000000, py = 0\<rparr> \<lparr>px = 100000000000000016, py = 0\<rparr> =
      Some \<lparr>px = 100000000000000000, py = 0\<rparr>)"
proof -
  have fin: "finite_double 16" "finite_double 0" "finite_double (16 * lerpFactor_double)"
    "finite_double 100000000000000000"
    by (simp_all add: finite_double_def lerpFactor_double_value)
  have step: "step_double \<lparr>px = 100000000000000000, py = 0\<rparr> \<lparr>px = 100000000000000016, py = 0\<rparr> =
     Some \<lparr>px = 100000000000000000, py = 0\<rparr>"
    using fin
    by (simp add: step_double_def Let_def round_nearest_examples round_nearest_zero)
  show ?thesis
    using step steps_double_fixed [OF step]
    by (simp add: round_nearest_examples)
qed

section \<open>The size of one movement step\<close>




section \<open>Retirement\<close>

text \<open>
  C4. Let a live entity have the entry time \<open>T0\<close> recorded for its id (a non-zero time
  stamp, as \<open>Date.now()\<close> gives). The merge whose people list does not contain its id
  retires it: \<open>completedVisits\<close> grows by exactly 1 for it and \<open>totalDwellTimeMs\<close> by
  exactly the time of the merge minus \<open>T0\<close> (each other id retired by the same merge adds
  its own 1 and its own duration), no live entity carries its id afterwards, and its
  entry time is forgotten.
\<close>

theorem retirement_correct:
  assumes "c \<in> set (customers s)"
    and "entryTimes s (id' c) = Some T0"
    and "T0 \<noteq> 0"
    and "id' c \<notin> track_id ` set (plan_data d)"
  shows "completedVisits (dailyStats (processWebSocketData now wall d s)) =
           completedVisits (dailyStats s) + 1 + length (other_exits s d (id' c)) \<and>
         totalDwellTimeMs (dailyStats (processWebSocketData now wall d s)) =
           totalDwellTimeMs (dailyStats s) + (wall - T0) +
             (\<Sum>i \<leftarrow> other_exits s d (id' c). dwell wall (entryTimes s) i) \<and>
         id' c \<notin> id' ` set (customers (processWebSocketData now wall d s)) \<and>
         entryTimes (processWebSocketData now wall d s) (id' c) = None"
proof -
  let ?A = "track_id ` set (plan_data d)"
  let ?et1 = "snd (snd (process_plan_data (customers s) now wall (plan_data d)
      ([], {}, entryTimes s)))"
  let ?E = "exits ?A (entryTimes s) (customers s)"
  let ?O = "other_exits s d (id' c)"
  have agree: "\<forall>i. i \<notin> ?A \<longrightarrow> ?et1 i = entryTimes s i"
    by (simp add: process_plan_data_entry)
  note cong = exits_entry_cong [OF agree] sum_exits_entry_cong [OF agree]
  have mem: "id' c \<in> ?E"
    using assms by (auto simp: exits_def truthy_def)
  have E: "?E = insert (id' c) (set ?O)" and notin: "id' c \<notin> set ?O"
    using mem by (auto simp: other_exits_set)
  have card: "card ?E = 1 + length ?O"
    unfolding E using notin by (simp add: distinct_card [OF distinct_other_exits])
  have "(\<Sum>i \<in> ?E. dwell wall (entryTimes s) i) =
      dwell wall (entryTimes s) (id' c) + (\<Sum>i \<in> set ?O. dwell wall (entryTimes s) i)"
    unfolding E using notin by simp
  also have "(\<Sum>i \<in> set ?O. dwell wall (entryTimes s) i) =
      (\<Sum>i \<leftarrow> ?O. dwell wall (entryTimes s) i)"
    by (simp add: sum_list_distinct_conv_sum_set [OF distinct_other_exits])
  finally have sum: "(\<Sum>i \<in> ?E. dwell wall (entryTimes s) i) =
      (wall - T0) + (\<Sum>i \<leftarrow> ?O. dwell wall (entryTimes s) i)"
    by (simp add: dwell_def assms(2))
  have sum1: "(\<Sum>i \<in> exits ?A ?et1 (customers s). dwell wall ?et1 i) =
      (wall - T0) + (\<Sum>i \<leftarrow> ?O. dwell wall (entryTimes s) i)"
    by (simp only: cong(2) sum)
  have card1: "card (exits ?A ?et1 (customers s)) = 1 + length ?O"
    by (simp only: cong(1) card)
  have stats: "completedVisits (dailyStats (processWebSocketData now wall d s)) =
        completedVisits (dailyStats s) + 1 + length ?O"
      "totalDwellTimeMs (dailyStats (processWebSocketData now wall d s)) =
        totalDwellTimeMs (dailyStats s) + (wall - T0) +
          (\<Sum>i \<leftarrow> ?O. dwell wall (entryTimes s) i)"
    by (simp_all add: dailyStats_processWebSocketData handle_exits_result card1 sum1
        process_statistics_frame)
  have gone: "id' c \<notin> id' ` set (customers (processWebSocketData now wall d s))"
  proof -
    have "id' ` set (customers (processWebSocketData now wall d s)) = ?A"
      by (simp add: customers_processWebSocketData image_image id_customer_of)
    then show ?thesis using assms(4) by simp
  qed
  have "entryTimes (processWebSocketData now wall d s) (id' c) = None"
    using mem by (simp add: entryTimes_processWebSocketData handle_exits_result cong(1))
  with stats gone show ?thesis by blast
qed

text \<open>
  The scenario of the specification: an entity that entered at time 1000 and was live for
  three updates is absent from the fourth, at time 4000.
\<close>

theorem retirement_correct_witness:
  "completedVisits (dailyStats (processWebSocketData 48 4000 (snapshot 1 0 []) visit_state)) = 1 \<and>
   totalDwellTimeMs (dailyStats (processWebSocketData 48 4000 (snapshot 1 0 []) visit_state)) = 3000 \<and>
   entryTimes (processWebSocketData 48 4000 (snapshot 1 0 []) visit_state) ''a'' = None"
proof -
  let ?c = "hd (customers visit_state)"
  have cs: "customers visit_state = [?c]" and idc: "id' ?c = ''a''"
    using visit_facts(1) by (cases "customers visit_state"; simp)+
  have mem: "?c \<in> set (customers visit_state)"
    using cs by (metis list.set_intros(1))
  have et: "entryTimes visit_state (id' ?c) = Some 1000"
    by (simp add: idc visit_facts)
  have absent: "id' ?c \<notin> track_id ` set (plan_data (snapshot 1 0 []))"
    by simp
  have others: "other_exits visit_state (snapshot 1 0 []) (id' ?c) = []"
    using visit_facts(1) by (simp add: other_exits_def idc)
  show ?thesis
    using retirement_correct [OF mem et _ absent, of 48 4000] others
    by (simp add: idc visit_facts)
qed

section \<open>Adoption of the upstream counters\<close>

lemma counters_processWebSocketData:
  "totalCustomers (dailyStats (processWebSocketData now wall d s)) =
     (if entry_number d > 0 then entry_number d else totalCustomers (dailyStats s)) \<and>
   quickExits (dailyStats (processWebSocketData now wall d s)) =
     (if short_dwell_number d > 0 then short_dwell_number d else quickExits (dailyStats s))"
  by (simp add: dailyStats_processWebSocketData handle_exits_frame process_statistics_def Let_def)

text \<open>
  C5. For every inbound update whose reported counters are counts (cumulative, so not
  negative), \<open>totalCustomers\<close> and \<open>quickExits\<close> are overwritten with the upstream-reported
  value if and only if the reported value is non-zero; a report of zero leaves the
  previous value.
\<close>

theorem adopt_counters_when_nonzero:
  assumes "0 \<le> entry_number d" and "0 \<le> short_dwell_number d"
  shows "totalCustomers (dailyStats (processWebSocketData now wall d s)) =
           (if entry_number d \<noteq> 0 then entry_number d else totalCustomers (dailyStats s)) \<and>
         quickExits (dailyStats (processWebSocketData now wall d s)) =
           (if short_dwell_number d \<noteq> 0 then short_dwell_number d
            else quickExits (dailyStats s))"
proof -
  have "(entry_number d > 0) = (entry_number d \<noteq> 0)"
    and "(short_dwell_number d > 0) = (short_dwell_number d \<noteq> 0)"
    using assms by auto
  then show ?thesis
    by (simp add: counters_processWebSocketData)
qed

text \<open>
  The scenario of the specification: entries 42, then entries 0; the total stays 42.
\<close>

theorem adopt_counters_when_nonzero_witness:
  "totalCustomers (dailyStats (processWebSocketData 0 0 (snapshot 42 0 []) (initial_state 0)))
     = 42 \<and>
   totalCustomers (dailyStats (processWebSocketData 1 1 (snapshot 0 0 [])
     (processWebSocketData 0 0 (snapshot 42 0 []) (initial_state 0)))) = 42"
proof -
  have h0: "0 \<le> entry_number (snapshot 0 0 [])" "0 \<le> short_dwell_number (snapshot 0 0 [])"
    and h42: "0 \<le> entry_number (snapshot 42 0 [])" "0 \<le> short_dwell_number (snapshot 42 0 [])"
    by simp_all
  show ?thesis
    using adopt_counters_when_nonzero [OF h0, of 1 1
        "processWebSocketData 0 0 (snapshot 42 0 []) (initial_state 0)"]
      adopt_counters_when_nonzero [OF h42, of 0 0 "initial_state 0"]
    by simp
qed

section \<open>The heatmap accumulator\<close>

text \<open>
  C6. On a tick whose time stamp is not earlier than the previous one (the elapsed frames
  are not negative), the accumulator keeps its size and no cell decreases; each cell grows
  by 0.02 times the elapsed frames for each entity whose position after the movement lies
  in that cell, and entities outside the grid add nothing. A message leaves the
  accumulator alone. Selecting another store replaces it by an array of zeros of the new
  store's size.
\<close>

theorem heatmap_monotone_until_switch:
  "(lastTime s \<le> time \<longrightarrow>
      length (heatmapAccumulator (updateSimulation time s)) = length (heatmapAccumulator s) \<and>
      (\<forall>i < length (heatmapAccumulator s).
         heatmapAccumulator s ! i \<le> heatmapAccumulator (updateSimulation time s) ! i)) \<and>
   (\<forall>i < length (heatmapAccumulator s).
      heatmapAccumulator (updateSimulation time s) ! i =
        heatmapAccumulator s ! i +
        0.02 * ((time - lastTime s) / 16.67) *
          real (length (filter (\<lambda>c. cell_of (store s) (pos c) = Some i)
                  (customers (updateSimulation time s))))) \<and>
   heatmapAccumulator (onmessage now wall parsed s) = heatmapAccumulator s \<and>
   (idx < length STORES \<and> idx \<noteq> currentStoreIdx s \<longrightarrow>
      (\<exists>s1. setCurrentStoreIdx idx s = Some s1 \<and>
         heatmapAccumulator s1 =
           replicate (nat (COLS (STORES ! idx) * ROWS (STORES ! idx))) 0))"
proof -
  let ?dt = "(time - lastTime s) / 16.67"
  let ?n = "\<lambda>i. real (length (filter (\<lambda>c. cell_of (store s) (pos c) = Some i)
                  (customers (updateSimulation time s))))"
  have cnt: "\<And>i. ?n i =
      real (length (filter (\<lambda>c. cell_of (store s) (pos (advance c)) = Some i) (customers s)))"
    by (simp add: customers_updateSimulation filter_map comp_def)
  have exact: "\<forall>i < length (heatmapAccumulator s).
      heatmapAccumulator (updateSimulation time s) ! i =
        heatmapAccumulator s ! i + 0.02 * ?dt * ?n i"
    unfolding cnt by (simp add: heatmapAccumulator_updateSimulation nth_snd_simulate_customers)
  have len: "length (heatmapAccumulator (updateSimulation time s)) = length (heatmapAccumulator s)"
    by (simp add: heatmapAccumulator_updateSimulation length_snd_simulate_customers)
  have mono: "lastTime s \<le> time \<longrightarrow>
      (\<forall>i < length (heatmapAccumulator s).
         heatmapAccumulator s ! i \<le> heatmapAccumulator (updateSimulation time s) ! i)"
  proof (intro impI allI)
    fix i
    assume t: "lastTime s \<le> time" and i: "i < length (heatmapAccumulator s)"
    have "0 \<le> ?dt" using t by simp
    then have "0 \<le> 0.02 * ?dt * ?n i"
      by (intro mult_nonneg_nonneg) simp_all
    then show "heatmapAccumulator s ! i \<le> heatmapAccumulator (updateSimulation time s) ! i"
      using exact i by simp
  qed
  have sw: "idx < length STORES \<and> idx \<noteq> currentStoreIdx s \<longrightarrow>
      (\<exists>s1. setCurrentStoreIdx idx s = Some s1 \<and>
         heatmapAccumulator s1 =
           replicate (nat (COLS (STORES ! idx) * ROWS (STORES ! idx))) 0)"
    by (simp add: setCurrentStoreIdx_def store_change_effect_def store_def COLS_def ROWS_def
        Let_def)
  show ?thesis
    using exact len mono sw heatmapAccumulator_onmessage by blast
qed

text \<open>
  One entity resting at (10, 10), one elapsed frame: cell 0 grows by 0.02. Selecting the
  second store gives 45 times 28 cells, all zero.
\<close>

theorem heatmap_monotone_until_switch_witness:
  "heatmapAccumulator resting_state ! 0
     \<le> heatmapAccumulator (updateSimulation (1667 / 100) resting_state) ! 0 \<and>
   heatmapAccumulator (updateSimulation (1667 / 100) resting_state) ! 0 =
     heatmapAccumulator resting_state ! 0 + 0.02 \<and>
   (\<exists>s1. setCurrentStoreIdx 1 resting_state = Some s1 \<and>
      heatmapAccumulator s1 = replicate 1260 0)"
proof -
  note h = heatmap_monotone_until_switch [where s = resting_state and time = "1667 / 100"
      and idx = 1 and now = 0 and wall = 0 and parsed = "Inl SyntaxError"]
  have i: "0 < length (heatmapAccumulator resting_state)"
    by (simp add: resting_facts)
  have t: "lastTime resting_state \<le> 1667 / 100"
    by (simp add: resting_facts)
  have cs: "customers (updateSimulation (1667 / 100) resting_state) = [customers resting_state ! 0]"
    using resting_facts(1) resting_not_moving
    by (cases "customers resting_state") (simp_all add: customers_updateSimulation advance_not_moving)
  have n: "length (filter (\<lambda>c. cell_of (store resting_state) (pos c) = Some 0)
      (customers (updateSimulation (1667 / 100) resting_state))) = 1"
    by (simp add: cs resting_facts store_def cell_of_resting)
  have sw: "1 < length STORES \<and> 1 \<noteq> currentStoreIdx resting_state"
    by (simp add: grid_sizes resting_facts)
  have "heatmapAccumulator resting_state ! 0
      \<le> heatmapAccumulator (updateSimulation (1667 / 100) resting_state) ! 0"
    using h t i by blast
  moreover have "heatmapAccumulator (updateSimulation (1667 / 100) resting_state) ! 0 =
      heatmapAccumulator resting_state ! 0 +
        0.02 * ((1667 / 100 - lastTime resting_state) / 16.67) *
          real (length (filter (\<lambda>c. cell_of (store resting_state) (pos c) = Some 0)
                  (customers (updateSimulation (1667 / 100) resting_state))))"
    using h i by blast
  then have "heatmapAccumulator (updateSimulation (1667 / 100) resting_state) ! 0 =
      heatmapAccumulator resting_state ! 0 + 0.02"
    by (simp add: n resting_facts)
  moreover have "\<exists>s1. setCurrentStoreIdx 1 resting_state = Some s1 \<and>
      heatmapAccumulator s1 = replicate 1260 0"
    using h sw by (simp add: grid_sizes)
  ultimately show ?thesis by blast
qed

section \<open>The trail\<close>











section \<open>Malformed messages\<close>

text \<open>
  C8. A malformed inbound message (an unparsable payload, or a wrapper whose type is not
  \<open>device_data\<close> or that lacks a data field) is dropped by the handler, which returns
  normally with the whole state (live entities, heatmap, statistics, entry times)
  unchanged; the messages and ticks that follow are processed as if it had not arrived.
\<close>

theorem malformed_message_dropped:
  assumes "malformed parsed"
  shows "onmessage now wall parsed s = s \<and>
         run (Message now wall parsed # es) s = run es s"
proof -
  have "onmessage now wall parsed s = s"
    using assms
    by (cases parsed rule: malformed.cases)
       (auto simp: onmessage_def onmessage_try_def split: option.splits)
  then show ?thesis by simp
qed

text \<open>
  An unparsable payload, a wrapper of another type and a wrapper without data.
\<close>

theorem malformed_message_dropped_witness:
  "onmessage 5 7 (Inl SyntaxError) (processWebSocketData 0 0 (snapshot 42 0 [person ''a'' ''Female'' 10 10]) (initial_state 0))
     = processWebSocketData 0 0 (snapshot 42 0 [person ''a'' ''Female'' 10 10]) (initial_state 0) \<and>
   onmessage 5 7 (Inr (JObject \<lparr>type' = Some ''ping'', deviceId = None, data = Some (snapshot 1 1 [])\<rparr>)) (initial_state 0) = initial_state 0 \<and>
   run [Message 5 7 (Inr (JObject \<lparr>type' = Some ''device_data'', deviceId = None, data = None\<rparr>)), Tick 20] (initial_state 0) = run [Tick 20] (initial_state 0)"
  using malformed_message_dropped [of "Inl SyntaxError" 5 7 "processWebSocketData 0 0 (snapshot 42 0 [person ''a'' ''Female'' 10 10]) (initial_state 0)" "[]"]
   malformed_message_dropped [of "Inr (JObject \<lparr>type' = Some ''ping'', deviceId = None, data = Some (snapshot 1 1 [])\<rparr>)" 5 7 "initial_state 0" "[]"]
   malformed_message_dropped [of "Inr (JObject \<lparr>type' = Some ''device_data'', deviceId = None, data = None\<rparr>)" 5 7 "initial_state 0" "[Tick 20]"]
  by simp

section \<open>Selecting another store\<close>

text \<open>
  C9 (as amended). Selecting another store replaces the heatmap accumulator and the
  published heatmap by zeros of the new store's size and empties the live set; the entry
  times and the statistics are kept. In the next merge every record creates a new entity
  (at its reported position, with a one-point trail), and an id seen before the switch
  keeps the entry time it had, while an id with no recorded entry time gets the time of
  that merge.
\<close>

theorem store_switch_resets_view_only:
  assumes "idx < length STORES" and "idx \<noteq> currentStoreIdx s"
  shows "\<exists>s1. setCurrentStoreIdx idx s = Some s1 \<and>
           heatmapAccumulator s1 = replicate (nat (COLS (STORES ! idx) * ROWS (STORES ! idx))) 0 \<and>
           heatmap s1 = replicate (nat (COLS (STORES ! idx) * ROWS (STORES ! idx))) 0 \<and>
           customers s1 = [] \<and>
           entryTimes s1 = entryTimes s \<and>
           dailyStats s1 = dailyStats s \<and>
           customers (processWebSocketData now wall d s1) = map (new_customer now) (plan_data d) \<and>
           (\<forall>p \<in> set (plan_data d).
              entryTimes (processWebSocketData now wall d s1) (track_id p) =
                (case entryTimes s (track_id p) of None \<Rightarrow> Some wall | Some T0 \<Rightarrow> Some T0))"
proof -
  let ?s1 = "store_change_effect (s\<lparr>currentStoreIdx := idx\<rparr>)"
  have sw: "setCurrentStoreIdx idx s = Some ?s1"
    using assms by (simp add: setCurrentStoreIdx_def)
  have flds: "heatmapAccumulator ?s1 = replicate (nat (COLS (STORES ! idx) * ROWS (STORES ! idx))) 0"
    "heatmap ?s1 = replicate (nat (COLS (STORES ! idx) * ROWS (STORES ! idx))) 0"
    "customers ?s1 = []" "entryTimes ?s1 = entryTimes s" "dailyStats ?s1 = dailyStats s"
    by (simp_all add: store_change_effect_def store_def COLS_def ROWS_def Let_def)
  have fresh: "customers (processWebSocketData now wall d ?s1) = map (new_customer now) (plan_data d)"
    by (simp add: customers_processWebSocketData flds(3) customer_of_def)
  have entry: "\<forall>p \<in> set (plan_data d).
      entryTimes (processWebSocketData now wall d ?s1) (track_id p) =
        (case entryTimes s (track_id p) of None \<Rightarrow> Some wall | Some T0 \<Rightarrow> Some T0)"
    by (auto simp: entryTimes_merge_present flds(3,4) split: option.splits)
  show ?thesis
    using sw flds fresh entry by blast
qed

text \<open>
  The id \<open>a\<close>, first seen at time 1000, is seen again at time 5000 after the second store
  was selected.
\<close>

theorem store_switch_resets_view_only_witness:
  "\<exists>s1. setCurrentStoreIdx 1 visit_state = Some s1 \<and>
      heatmapAccumulator s1 = replicate 1260 0 \<and>
      customers s1 = [] \<and>
      entryTimes (processWebSocketData 64 5000 (snapshot 1 0 [person ''a'' ''male'' 10 10]) s1) ''a''
        = Some 1000"
proof -
  have idx: "1 < length STORES" "1 \<noteq> currentStoreIdx visit_state"
    by (simp_all add: grid_sizes visit_state_def frame_processWebSocketData initial_state_def)
  from store_switch_resets_view_only [OF idx, of 64 5000 "snapshot 1 0 [person ''a'' ''male'' 10 10]"]
  obtain s1 where s1: "setCurrentStoreIdx 1 visit_state = Some s1"
    "heatmapAccumulator s1 = replicate (nat (COLS (STORES ! 1) * ROWS (STORES ! 1))) 0"
    "customers s1 = []"
    "\<forall>p \<in> set (plan_data (snapshot 1 0 [person ''a'' ''male'' 10 10])).
       entryTimes (processWebSocketData 64 5000 (snapshot 1 0 [person ''a'' ''male'' 10 10]) s1)
         (track_id p) =
       (case entryTimes visit_state (track_id p) of None \<Rightarrow> Some 5000 | Some T0 \<Rightarrow> Some T0)"
    by blast
  from s1(4) have "entryTimes
      (processWebSocketData 64 5000 (snapshot 1 0 [person ''a'' ''male'' 10 10]) s1) ''a'' = Some 1000"
    by (simp add: visit_facts)
  with s1(1,2,3) show ?thesis by (simp add: grid_sizes)
qed

text \<open>
  After the switch the id \<open>a\<close> does not get a fresh entry time: it keeps 1000, and its
  retirement at time 6000 adds a dwell time of 5000.
\<close>

theorem stale_entry_time_counterexample:
  "run [Message 0 1000 (device_data (snapshot 1 0 [person ''a'' ''male'' 10 10])),
        Message 16 2000 (device_data (snapshot 1 0 [person ''a'' ''male'' 20 10])),
        Message 32 3000 (device_data (snapshot 1 0 [person ''a'' ''male'' 30 10])),
        SelectStore 1,
        Message 64 5000 (device_data (snapshot 1 0 [person ''a'' ''male'' 10 10]))]
     (initial_state 0) = Some switched_state \<and>
   entryTimes switched_state ''a'' = Some 1000 \<and>
   entryTimes switched_state ''a'' \<noteq> Some 5000 \<and>
   totalDwellTimeMs (dailyStats (processWebSocketData 80 6000 (snapshot 1 0 []) switched_state))
     = 5000"
proof -
  let ?s1 = "store_change_effect (visit_state\<lparr>currentStoreIdx := 1\<rparr>)"
  note s1 = store_change_effect_sel
  have et: "entryTimes switched_state ''a'' = Some 1000"
    by (simp add: switched_state_def entryTimes_merge_present s1 visit_facts)
  have cs: "customers switched_state = [new_customer 64 (person ''a'' ''male'' 10 10)]"
    by (simp add: switched_state_def customers_processWebSocketData s1 customer_of_def)
  have st: "totalDwellTimeMs (dailyStats switched_state) = 0"
    unfolding switched_state_def
    using completedVisits_merge_no_exit [of ?s1 "snapshot 1 0 [person ''a'' ''male'' 10 10]" 64 5000]
    by (simp add: s1 visit_facts)
  let ?c = "new_customer 64 (person ''a'' ''male'' 10 10)"
  have idc: "id' ?c = ''a''"
    by (simp add: new_customer_def Let_def)
  have "totalDwellTimeMs (dailyStats (processWebSocketData 80 6000 (snapshot 1 0 []) switched_state))
      = 5000"
    by (simp add: dailyStats_processWebSocketData cs idc et st process_statistics_frame)
  with et run_to_switched_state show ?thesis by simp
qed

section \<open>Updating an entity that is already live\<close>

lemma find_unique_live_entity:
  assumes "distinct (map id' cs)" and "c \<in> set cs"
  shows "find (\<lambda>c'. id' c' = id' c) cs = Some c"
  using assms
proof (induction cs)
  case Nil
  then show ?case by simp
next
  case (Cons a cs)
  then show ?case by (cases "id' a = id' c") auto
qed

text \<open>
  C10 (as amended). For every merge and every record of its people list whose id is
  already live, the entity pushed for that record is the first live entity with that id
  (the one the lookup \<open>prevCustomers.find\<close> returns; when the live ids are unique, the live
  entity itself) with only \<open>target\<close>, \<open>angle\<close>, \<open>age\<close> and \<open>state\<close> (set to WALKING)
  replaced: its \<open>pos\<close>, \<open>path\<close>, \<open>color\<close> and every other field are unchanged, and so is
  the entry time recorded for its id.
\<close>

theorem existing_entity_update_frame:
  assumes "j < length (plan_data d)"
    and "find (\<lambda>c. id' c = track_id (plan_data d ! j)) (customers s) = Some c"
  shows "customers (processWebSocketData now wall d s) ! j =
           c\<lparr>target := targetPos (plan_data d ! j),
             angle := targetAngle (plan_data d ! j),
             age := Some (PlanData.age (plan_data d ! j)),
             state := WALKING\<rparr> \<and>
         pos (customers (processWebSocketData now wall d s) ! j) = pos c \<and>
         path (customers (processWebSocketData now wall d s) ! j) = path c \<and>
         color (customers (processWebSocketData now wall d s) ! j) = color c \<and>
         entryTimes (processWebSocketData now wall d s) (id' c) = entryTimes s (id' c)"
proof -
  let ?p = "plan_data d ! j"
  have idc: "id' c = track_id ?p"
    using assms(2) by (auto simp: find_Some_iff)
  have mem: "track_id ?p \<in> track_id ` set (plan_data d)"
    using assms(1) by simp
  have c: "customers (processWebSocketData now wall d s) ! j =
      c\<lparr>target := targetPos ?p, angle := targetAngle ?p, age := Some (PlanData.age ?p),
        state := WALKING\<rparr>"
    using assms by (simp add: customers_processWebSocketData customer_of_def update_existing_def)
  have "entryTimes (processWebSocketData now wall d s) (id' c) = entryTimes s (id' c)"
    using assms(2) mem
    by (simp add: entryTimes_processWebSocketData handle_exits_entry_active
        process_plan_data_entry idc)
  with c show ?thesis by simp
qed

text \<open>
  The id \<open>a\<close> created at (10, 10) is reported at (50, 60): only its target moves.
\<close>

theorem existing_entity_update_frame_witness:
  "pos (customers (processWebSocketData 16 2000 (snapshot 1 0 [person ''a'' ''male'' 50 60])
      (processWebSocketData 0 1000 (snapshot 1 0 [person ''a'' ''female'' 10 10])
        (initial_state 0))) ! 0) = \<lparr>px = 10, py = 10\<rparr> \<and>
   target (customers (processWebSocketData 16 2000 (snapshot 1 0 [person ''a'' ''male'' 50 60])
      (processWebSocketData 0 1000 (snapshot 1 0 [person ''a'' ''female'' 10 10])
        (initial_state 0))) ! 0) = \<lparr>px = 50, py = 60\<rparr> \<and>
   path (customers (processWebSocketData 16 2000 (snapshot 1 0 [person ''a'' ''male'' 50 60])
      (processWebSocketData 0 1000 (snapshot 1 0 [person ''a'' ''female'' 10 10])
        (initial_state 0))) ! 0) = [\<lparr>px = 10, py = 10\<rparr>] \<and>
   color (customers (processWebSocketData 16 2000 (snapshot 1 0 [person ''a'' ''male'' 50 60])
      (processWebSocketData 0 1000 (snapshot 1 0 [person ''a'' ''female'' 10 10])
        (initial_state 0))) ! 0) = ''#ec4899'' \<and>
   entryTimes (processWebSocketData 16 2000 (snapshot 1 0 [person ''a'' ''male'' 50 60])
      (processWebSocketData 0 1000 (snapshot 1 0 [person ''a'' ''female'' 10 10])
        (initial_state 0))) ''a'' = Some 1000"
proof -
  let ?s1 = "processWebSocketData 0 1000 (snapshot 1 0 [person ''a'' ''female'' 10 10])
        (initial_state 0)"
  let ?c = "new_customer 0 (person ''a'' ''female'' 10 10)"
  have cs: "customers ?s1 = [?c]"
    by (simp add: customers_processWebSocketData customer_of_def initial_state_def snapshot_def)
  have idc: "id' ?c = ''a''"
    by (simp add: new_customer_def person_def Let_def)
  have hyp: "find (\<lambda>c. id' c = track_id (plan_data (snapshot 1 0 [person ''a'' ''male'' 50 60]) ! 0))
      (customers ?s1) = Some ?c"
    unfolding cs by (simp add: new_customer_def snapshot_def person_def Let_def)
  have et: "entryTimes ?s1 ''a'' = Some 1000"
    by (simp add: entryTimes_processWebSocketData process_plan_data_entry
        handle_exits_entry_active initial_state_def snapshot_def person_def)
  have flds: "pos ?c = \<lparr>px = 10, py = 10\<rparr> \<and> path ?c = [\<lparr>px = 10, py = 10\<rparr>] \<and>
      color ?c = ''#ec4899''"
    by (simp add: new_customer_def person_def Let_def targetPos_def toLowerCase_def lower_char_def)
  show ?thesis
    using existing_entity_update_frame [of 0 "snapshot 1 0 [person ''a'' ''male'' 50 60]" ?s1 ?c 16 2000]
      hyp et flds idc
    by (simp add: snapshot_def person_def targetPos_def)
qed

text \<open>
  Two live entities share the id \<open>a\<close>, at (10, 10) and at (200, 200), after an update that
  named the id twice. The same update again: the second entity's id is in the people
  list, yet its position and trail are not kept; both pushed entities are copies of the
  first.
\<close>

theorem duplicate_live_entity_counterexample:
  "id' (customers (processWebSocketData 0 1000
      (snapshot 1 0 [person ''a'' ''male'' 10 10, person ''a'' ''male'' 200 200])
      (initial_state 0)) ! 1) = ''a'' \<and>
   pos (customers (processWebSocketData 0 1000
      (snapshot 1 0 [person ''a'' ''male'' 10 10, person ''a'' ''male'' 200 200])
      (initial_state 0)) ! 1) = \<lparr>px = 200, py = 200\<rparr> \<and>
   ''a'' \<in> track_id `
      set (plan_data (snapshot 1 0 [person ''a'' ''male'' 10 10, person ''a'' ''male'' 200 200])) \<and>
   map pos (customers (processWebSocketData 16 2000
      (snapshot 1 0 [person ''a'' ''male'' 10 10, person ''a'' ''male'' 200 200])
      (processWebSocketData 0 1000
        (snapshot 1 0 [person ''a'' ''male'' 10 10, person ''a'' ''male'' 200 200])
        (initial_state 0)))) = [\<lparr>px = 10, py = 10\<rparr>, \<lparr>px = 10, py = 10\<rparr>] \<and>
   map path (customers (processWebSocketData 16 2000
      (snapshot 1 0 [person ''a'' ''male'' 10 10, person ''a'' ''male'' 200 200])
      (processWebSocketData 0 1000
        (snapshot 1 0 [person ''a'' ''male'' 10 10, person ''a'' ''male'' 200 200])
        (initial_state 0)))) = [[\<lparr>px = 10, py = 10\<rparr>], [\<lparr>px = 10, py = 10\<rparr>]]"
proof -
  let ?u = "snapshot 1 0 [person ''a'' ''male'' 10 10, person ''a'' ''male'' 200 200]"
  let ?c1 = "new_customer 0 (person ''a'' ''male'' 10 10)"
  let ?c2 = "new_customer 0 (person ''a'' ''male'' 200 200)"
  have cs: "customers (processWebSocketData 0 1000 ?u (initial_state 0)) = [?c1, ?c2]"
    by (simp add: customers_processWebSocketData customer_of_def initial_state_def)
  have ids: "id' ?c1 = ''a''" "id' ?c2 = ''a''"
    by (simp_all add: new_customer_def Let_def)
  have flds: "pos ?c1 = \<lparr>px = 10, py = 10\<rparr>" "path ?c1 = [\<lparr>px = 10, py = 10\<rparr>]"
    "pos ?c2 = \<lparr>px = 200, py = 200\<rparr>"
    by (simp_all add: new_customer_def Let_def targetPos_def)
  have nxt: "customers (processWebSocketData 16 2000 ?u
      (processWebSocketData 0 1000 ?u (initial_state 0))) =
      [update_existing ?c1 (person ''a'' ''male'' 10 10),
       update_existing ?c1 (person ''a'' ''male'' 200 200)]"
    by (simp add: customers_processWebSocketData [of 16] cs customer_of_def ids)
  show ?thesis
    unfolding nxt cs by (simp add: ids flds update_existing_def)
qed

end
